theory Spec2Isabelle
  imports Main "HOL-Library.Word"
begin

unbundle bit_operations_syntax

section \<open>Solidity values and errors\<close>

type_synonym byte = "8 word"
type_synonym bytes = "byte list"
type_synonym uint8 = "8 word"
type_synonym uint16 = "16 word"
type_synonym uint64 = "64 word"
type_synonym uint160 = "160 word"
type_synonym uint256 = "256 word"
type_synonym bytes4 = "32 word"
type_synonym bytes20 = "160 word"
type_synonym bytes32 = "256 word"
type_synonym address = "160 word"

text \<open>
  Every way a call of the contracts can revert: a \<open>require\<close> with its message, a
  panic of the checked arithmetic or of an array index, a revert without data (a failed
  \<open>abi.decode\<close>, a call to an address that holds no contract), and the custom errors
  of \<open>SafeRecoveryModule\<close> and \<open>AztecRecoveryValidator\<close>.
\<close>

datatype sol_error =
    Revert string
  | Panic
  | EmptyRevert
  | ModulePaused
  | ValidationFailed
  | SafeCallFailed
  | ConsumeNonceFailed
  | VaaAlreadyConsumed
  | InvalidVaa
  | WrongChain
  | NotOwner
  | NotAuthorizedModule
  | ValidatorPaused
  | InvalidVAA
  | BadVersion
  | Expired
  | NonceAlreadyConsumed
  | BadSelector
  | SafeMismatch
  | ThresholdMismatch
  | NonceMismatch
  | OwnersMismatch

section \<open>PayloadExtractor\<close>

record ParsedPayload =
  txId :: bytes32
  addressField5 :: address
  chainId :: uint16
  amount :: uint8
  addressField7 :: address

text \<open>\<open>mload\<close> of a run of bytes: the first byte is the most significant one.\<close>

definition mload_bytes :: "bytes \<Rightarrow> 'a::len word" where
  "mload_bytes bs = foldl (\<lambda>acc b. push_bit 8 acc OR ucast b) 0 bs"

text \<open>
  \<open>reverseBytes20\<close>: the loop runs \<open>i = 0 .. 19\<close>; the third argument counts the
  iterations that remain. \<open>bytes1(input << (i * 8))\<close> is the top byte of the shifted
  20-byte value.
\<close>

fun reverseBytes20_loop :: "bytes20 \<Rightarrow> nat \<Rightarrow> nat \<Rightarrow> uint160 \<Rightarrow> uint160" where
  "reverseBytes20_loop input i 0 reversed = reversed"
| "reverseBytes20_loop input i (Suc n) reversed =
     (let b = (ucast (drop_bit 152 (push_bit (i * 8) input)) :: uint8)
      in reverseBytes20_loop input (i + 1) n (reversed OR push_bit (8 * i) (ucast b)))"

definition reverseBytes20 :: "bytes20 \<Rightarrow> uint160" where
  "reverseBytes20 input = reverseBytes20_loop input 0 20 0"

text \<open>
  \<open>reverseBytes20Assembly\<close>: in assembly a \<open>bytes20\<close> is a 32-byte stack word with the
  value in its 20 high-order bytes, so \<open>temp\<close> is the input shifted left by 96 bits.
  \<open>asm_byte temp l r\<close> is \<open>shl(l, and(shr(r, temp), 0xff))\<close>.
\<close>

definition asm_byte :: "uint256 \<Rightarrow> nat \<Rightarrow> nat \<Rightarrow> uint256" where
  "asm_byte temp l r = push_bit l (drop_bit r temp AND 0xff)"

definition reverseBytes20Assembly :: "bytes20 \<Rightarrow> uint160" where
  "reverseBytes20Assembly input =
     (let temp = (push_bit 96 (ucast input) :: uint256) in
      ucast (
        (asm_byte temp 152 0 OR asm_byte temp 144 8 OR asm_byte temp 136 16
          OR asm_byte temp 128 24 OR asm_byte temp 120 32 OR asm_byte temp 112 40
          OR asm_byte temp 104 48 OR asm_byte temp 96 56 OR asm_byte temp 88 64
          OR asm_byte temp 80 72)
        OR
        (asm_byte temp 72 80 OR asm_byte temp 64 88 OR asm_byte temp 56 96
          OR asm_byte temp 48 104 OR asm_byte temp 40 112 OR asm_byte temp 32 120
          OR asm_byte temp 24 128 OR asm_byte temp 16 136 OR asm_byte temp 8 144
          OR (drop_bit 152 temp AND 0xff))))"

text \<open>
  \<open>offset\<close> is a \<open>uint256\<close>: the checked additions \<open>offset + 20\<close> and
  \<open>offset + 2\<close> panic when they pass \<open>2 ^ 256\<close>.
\<close>

definition extractAndReverseAddress :: "bytes \<Rightarrow> nat \<Rightarrow> sol_error + address" where
  "extractAndReverseAddress payload offset =
     (if offset + 20 \<ge> 2 ^ 256 then Inl Panic
      else if \<not> (length payload \<ge> offset + 20)
      then Inl (Revert ''Insufficient bytes for address'')
      else
        let reversedBytes = map (\<lambda>i. payload ! (offset + i)) [0..<20];
            reversedAddr = (mload_bytes reversedBytes :: bytes20);
            original = reverseBytes20 reversedAddr
        in Inr original)"

definition extractAndReverseUint16 :: "bytes \<Rightarrow> nat \<Rightarrow> sol_error + uint16" where
  "extractAndReverseUint16 payload offset =
     (if offset + 2 \<ge> 2 ^ 256 then Inl Panic
      else if \<not> (length payload \<ge> offset + 2)
      then Inl (Revert ''Insufficient bytes for uint16'')
      else
        let byte0 = payload ! offset;
            byte1 = payload ! (offset + 1)
        in Inr (push_bit 8 (ucast byte1) OR ucast byte0))"

definition parsePayload :: "bytes \<Rightarrow> sol_error + ParsedPayload" where
  "parsePayload payload =
     (if \<not> (length payload \<ge> 75) then Inl (Revert ''Payload too short'')
      else
        let txId = (mload_bytes (take 32 payload) :: bytes32) in
        case extractAndReverseAddress payload 32 of Inl e \<Rightarrow> Inl e | Inr a5 \<Rightarrow>
       (case extractAndReverseUint16 payload 52 of Inl e \<Rightarrow> Inl e | Inr cid \<Rightarrow>
        if \<not> (54 < length payload) then Inl Panic
        else
          let amt = payload ! 54 in
         (case extractAndReverseAddress payload 55 of Inl e \<Rightarrow> Inl e | Inr a7 \<Rightarrow>
          Inr \<lparr>txId = txId, addressField5 = a5, chainId = cid, amount = amt,
               addressField7 = a7\<rparr>)))"

section \<open>SafeRecoveryModule: the byte readers of the verify path\<close>

text \<open>
  \<open>_extractAddressLE\<close>: 20 iterations; \<open>data[offset + i]\<close> panics out of range.
\<close>

fun extractAddressLE_loop :: "bytes \<Rightarrow> nat \<Rightarrow> nat \<Rightarrow> nat \<Rightarrow> uint160 \<Rightarrow> sol_error + uint160"
  where
  "extractAddressLE_loop data offset i 0 addr = Inr addr"
| "extractAddressLE_loop data offset i (Suc n) addr =
     (if offset + i < length data
      then extractAddressLE_loop data offset (i + 1) n
             (addr OR push_bit (8 * i) (ucast (data ! (offset + i))))
      else Inl Panic)"

definition extractAddressLE :: "bytes \<Rightarrow> nat \<Rightarrow> sol_error + address" where
  "extractAddressLE data offset = extractAddressLE_loop data offset 0 20 0"

text \<open>
  \<open>_extractChainIdLE\<close>: at most 3 iterations; the loop condition also stops the loop
  at the end of the data, so this reader does not panic on an index. It is internal and
  \<open>verify\<close> passes the offset 52, for which \<open>offset + i\<close> cannot overflow.
\<close>

fun extractChainIdLE_loop :: "bytes \<Rightarrow> nat \<Rightarrow> nat \<Rightarrow> nat \<Rightarrow> uint256 \<Rightarrow> uint256" where
  "extractChainIdLE_loop data offset i 0 v = v"
| "extractChainIdLE_loop data offset i (Suc n) v =
     (if offset + i < length data
      then extractChainIdLE_loop data offset (i + 1) n
             (v OR push_bit (8 * i) (ucast (data ! (offset + i))))
      else v)"

definition extractChainIdLE :: "bytes \<Rightarrow> nat \<Rightarrow> uint256" where
  "extractChainIdLE data offset = extractChainIdLE_loop data offset 0 3 0"

text \<open>
  Step 3 and the first line of step 4 of \<open>verify\<close>: the length check and the three
  reads, giving \<open>(safeAddress, candidate, chainId)\<close>.
\<close>

definition verify_extract :: "bytes \<Rightarrow> sol_error + (address \<times> address \<times> uint256)" where
  "verify_extract payload =
     (if \<not> (length payload \<ge> 116) then Inl (Revert ''payload too short'')
      else
        case extractAddressLE payload 55 of Inl e \<Rightarrow> Inl e | Inr safeAddress \<Rightarrow>
       (case extractAddressLE payload 96 of Inl e \<Rightarrow> Inl e | Inr candidate \<Rightarrow>
        let chainId = extractChainIdLE payload 52
        in Inr (safeAddress, candidate, chainId)))"

section \<open>MockSafe\<close>

text \<open>
  \<open>uint256\<close> thresholds, lengths and times are natural numbers: the contracts only
  compare them, and add or subtract 1 under the checked arithmetic written out below.
\<close>

record MockSafe =
  owners :: "address list"
  threshold :: nat
  isOwner :: "address \<Rightarrow> bool"
  modules :: "address \<Rightarrow> bool"

text \<open>
  The loop \<open>for (j = 0; j < xs.length; j++) if (xs[j] == x) { ...; break; }\<close>: the first
  index that holds \<open>x\<close>, if any.
\<close>

fun first_index :: "'a list \<Rightarrow> 'a \<Rightarrow> nat option" where
  "first_index [] x = None"
| "first_index (y # ys) x = (if y = x then Some 0 else map_option Suc (first_index ys x))"

definition getOwners :: "MockSafe \<Rightarrow> address list" where
  "getOwners s = owners s"

definition getThreshold :: "MockSafe \<Rightarrow> nat" where
  "getThreshold s = threshold s"

definition addOwnerWithThreshold :: "address \<Rightarrow> nat \<Rightarrow> MockSafe \<Rightarrow> sol_error + MockSafe" where
  "addOwnerWithThreshold owner t s =
     (if owner = 0 then Inl (Revert ''invalid owner'')
      else if isOwner s owner then Inl (Revert ''already owner'')
      else if \<not> (t > 0 \<and> t \<le> length (owners s) + 1) then Inl (Revert ''invalid threshold'')
      else Inr (s\<lparr>owners := owners s @ [owner],
                  isOwner := (isOwner s)(owner := True),
                  threshold := t\<rparr>))"

text \<open>
  \<open>removeOwner\<close> never reads \<open>prevOwner\<close>. \<open>owners.length - 1\<close> is a checked
  subtraction, evaluated only when \<open>_threshold > 0\<close>. The loop overwrites the first
  slot that holds the owner with the last element and pops.
\<close>

definition removeOwner :: "address \<Rightarrow> address \<Rightarrow> nat \<Rightarrow> MockSafe \<Rightarrow> sol_error + MockSafe" where
  "removeOwner prevOwner owner t s =
     (if \<not> isOwner s owner then Inl (Revert ''not owner'')
      else if \<not> (t > 0) then Inl (Revert ''invalid threshold'')
      else if length (owners s) = 0 then Inl Panic
      else if \<not> (t \<le> length (owners s) - 1) then Inl (Revert ''invalid threshold'')
      else
        let owners' = (case first_index (owners s) owner of
                         None \<Rightarrow> owners s
                       | Some i \<Rightarrow> butlast ((owners s)[i := last (owners s)]))
        in Inr (s\<lparr>owners := owners',
                    isOwner := (isOwner s)(owner := False),
                    threshold := t\<rparr>))"

definition changeThreshold :: "nat \<Rightarrow> MockSafe \<Rightarrow> sol_error + MockSafe" where
  "changeThreshold t s =
     (if \<not> (t > 0 \<and> t \<le> length (owners s)) then Inl (Revert ''invalid threshold'')
      else Inr (s\<lparr>threshold := t\<rparr>))"

text \<open>
  The calls the module encodes with \<open>abi.encodeWithSelector\<close>, and their dispatch by
  selector when the Safe calls itself.
\<close>

datatype SafeCall =
    AddOwnerWithThreshold address nat
  | RemoveOwner address address nat
  | ChangeThreshold nat

fun safe_dispatch :: "SafeCall \<Rightarrow> MockSafe \<Rightarrow> sol_error + MockSafe" where
  "safe_dispatch (AddOwnerWithThreshold owner t) s = addOwnerWithThreshold owner t s"
| "safe_dispatch (RemoveOwner prevOwner owner t) s = removeOwner prevOwner owner t s"
| "safe_dispatch (ChangeThreshold t) s = changeThreshold t s"

text \<open>
  \<open>execTransactionFromModule(to, value, data, operation)\<close> as the module uses it:
  \<open>to\<close> is the Safe itself, \<open>value\<close> is 0, \<open>operation\<close> is 0 (a call). The gate
  reverts for a caller that is not an enabled module; otherwise it makes the low-level
  call and returns its success flag, and a failed inner call leaves the Safe as it was.
\<close>

definition execTransactionFromModule ::
  "address \<Rightarrow> SafeCall \<Rightarrow> MockSafe \<Rightarrow> sol_error + (bool \<times> MockSafe)" where
  "execTransactionFromModule sender c s =
     (if \<not> modules s sender then Inl (Revert ''not a module'')
      else case safe_dispatch c s of
             Inl e \<Rightarrow> Inr (False, s)
           | Inr s' \<Rightarrow> Inr (True, s'))"

section \<open>ISafe\<close>

text \<open>
  The module is written against the interface \<open>ISafe\<close>: the two views it reads and the
  module execution gate \<open>execTransactionFromModuleReturnData\<close>. The Safe is an input of
  the module; what is proved about the sequence is proved for every implementation of
  this record.
\<close>

record 's ISafe =
  i_getOwners :: "'s \<Rightarrow> address list"
  i_getThreshold :: "'s \<Rightarrow> nat"
  i_execTransactionFromModuleReturnData ::
    "address \<Rightarrow> SafeCall \<Rightarrow> 's \<Rightarrow> sol_error + (bool \<times> 's)"

text \<open>
  A stand-in Safe for the concrete runs. It is not the repository's \<open>MockSafe\<close> as
  deployed: that contract has no function named \<open>execTransactionFromModuleReturnData\<close>
  and no fallback, so the module's first sub-call to it would revert with empty data. The
  stand-in answers the interface's gate with \<open>MockSafe\<close>'s
  \<open>execTransactionFromModule\<close>, which takes the same arguments and returns the same
  pair, and keeps \<open>MockSafe\<close>'s storage, views and owner functions.
\<close>

definition MockSafe_impl :: "MockSafe ISafe" where
  "MockSafe_impl =
     \<lparr>i_getOwners = getOwners,
      i_getThreshold = getThreshold,
      i_execTransactionFromModuleReturnData = execTransactionFromModule\<rparr>"

section \<open>The chain environment\<close>

text \<open>
  The decoded attestation payload
  \<open>(uint8 version, uint256 chainId, address safe, address[] owners, uint256 threshold,
  bytes32 nonce, uint64 expiry)\<close>.
\<close>

record RecoveryPayload =
  p_version :: nat
  p_chainId :: nat
  p_safe :: address
  p_owners :: "address list"
  p_threshold :: nat
  p_nonce :: bytes32
  p_expiry :: nat

text \<open>
  The arguments of \<open>applyRecovery\<close>, and the call data \<open>validate\<close> receives: its first
  four bytes and the tuple the rest decodes to (\<open>None\<close> when \<open>abi.decode\<close> reverts).
\<close>

record RecoveryArgs =
  a_safe :: address
  a_owners :: "address list"
  a_threshold :: nat
  a_nonce :: bytes32
  a_vaa :: bytes

record CallData =
  cd_selector :: bytes4
  cd_args :: "RecoveryArgs option"

text \<open>
  What the contracts take from outside themselves: the block, the attestation core's
  \<open>parseAndVerifyVM\<close> (payload and validity flag), \<open>abi.decode\<close> of a payload, and the
  constant \<open>bytes4(keccak256("applyRecovery(address,address[],uint256,bytes32,bytes)"))\<close>.
\<close>

record Env =
  block_chainid :: nat
  block_timestamp :: nat
  parseAndVerifyVM :: "bytes \<Rightarrow> bytes \<times> bool"
  abi_decode_payload :: "bytes \<Rightarrow> RecoveryPayload option"
  applyRecovery_selector :: bytes4

definition MAGICVALUE :: bytes4 where
  "MAGICVALUE = 0x1626ba7e"

section \<open>AztecRecoveryValidator\<close>

record Validator =
  v_owner :: address
  v_paused :: bool
  authorizedModules :: "address \<Rightarrow> bool"
  consumed :: "bytes32 \<Rightarrow> bool"

text \<open>The loop of \<open>_validateCallData\<close> over two arrays of the same length.\<close>

fun owners_loop :: "address list \<Rightarrow> address list \<Rightarrow> sol_error + unit" where
  "owners_loop [] callOwners = Inr ()"
| "owners_loop (e # es) [] = Inl Panic"
| "owners_loop (e # es) (c # cs) = (if e \<noteq> c then Inl OwnersMismatch else owners_loop es cs)"

definition validateCallData ::
  "RecoveryArgs option \<Rightarrow> address \<Rightarrow> address list \<Rightarrow> nat \<Rightarrow> bytes32 \<Rightarrow> sol_error + unit" where
  "validateCallData encodedData expectedSafe expectedOwners expectedThreshold expectedNonce =
     (case encodedData of
        None \<Rightarrow> Inl EmptyRevert
      | Some a \<Rightarrow>
          if a_safe a \<noteq> expectedSafe then Inl SafeMismatch
          else if a_threshold a \<noteq> expectedThreshold then Inl ThresholdMismatch
          else if a_nonce a \<noteq> expectedNonce then Inl NonceMismatch
          else if length expectedOwners \<noteq> length (a_owners a) then Inl OwnersMismatch
          else owners_loop expectedOwners (a_owners a))"

definition validate :: "Env \<Rightarrow> address \<Rightarrow> Validator \<Rightarrow> CallData \<Rightarrow> bytes \<Rightarrow> sol_error + bytes4" where
  "validate env sender v callData vaa =
     (if v_paused v then Inl ValidatorPaused
      else if \<not> authorizedModules v sender then Inl NotAuthorizedModule
      else
        let (payload, ok) = parseAndVerifyVM env vaa in
        if \<not> ok then Inl InvalidVAA
        else case abi_decode_payload env payload of
          None \<Rightarrow> Inl EmptyRevert
        | Some p \<Rightarrow>
            if p_version p \<noteq> 1 then Inl BadVersion
            else if p_chainId p \<noteq> block_chainid env then Inl WrongChain
            else if block_timestamp env > p_expiry p then Inl Expired
            else if consumed v (p_nonce p) then Inl NonceAlreadyConsumed
            else if cd_selector callData \<noteq> applyRecovery_selector env then Inl BadSelector
            else (case validateCallData (cd_args callData) (p_safe p) (p_owners p)
                        (p_threshold p) (p_nonce p) of
                    Inl e \<Rightarrow> Inl e
                  | Inr u \<Rightarrow> Inr MAGICVALUE))"

definition markConsumed :: "address \<Rightarrow> Validator \<Rightarrow> bytes32 \<Rightarrow> sol_error + Validator" where
  "markConsumed sender v nonce =
     (if \<not> authorizedModules v sender then Inl NotAuthorizedModule
      else Inr (v\<lparr>consumed := (consumed v)(nonce := True)\<rparr>))"

definition setOwner :: "address \<Rightarrow> Validator \<Rightarrow> address \<Rightarrow> sol_error + Validator" where
  "setOwner sender v new_owner =
     (if sender \<noteq> v_owner v then Inl NotOwner else Inr (v\<lparr>v_owner := new_owner\<rparr>))"

definition setPaused :: "address \<Rightarrow> Validator \<Rightarrow> bool \<Rightarrow> sol_error + Validator" where
  "setPaused sender v b =
     (if sender \<noteq> v_owner v then Inl NotOwner else Inr (v\<lparr>v_paused := b\<rparr>))"

definition setModuleAuthorized ::
  "address \<Rightarrow> Validator \<Rightarrow> address \<Rightarrow> bool \<Rightarrow> sol_error + Validator" where
  "setModuleAuthorized sender v module authorized =
     (if sender \<noteq> v_owner v then Inl NotOwner
      else Inr (v\<lparr>authorizedModules := (authorizedModules v)(module := authorized)\<rparr>))"

text \<open>\<open>address(bytes20(data))\<close>: the first 20 bytes of the data.\<close>

definition onInstall :: "Validator \<Rightarrow> bytes \<Rightarrow> sol_error + Validator" where
  "onInstall v data =
     (if length data \<ge> 20
      then let module = (mload_bytes (take 20 data) :: address)
           in Inr (v\<lparr>authorizedModules := (authorizedModules v)(module := True)\<rparr>)
      else Inr v)"

definition onUninstall :: "Validator \<Rightarrow> bytes \<Rightarrow> sol_error + Validator" where
  "onUninstall v data = Inr v"

text \<open>
  Every external function of the validator as one transaction on its state; a
  transaction that reverts leaves the state as it was.
\<close>

datatype validator_op =
    SetOwner address
  | SetPaused bool
  | SetModuleAuthorized address bool
  | OnInstall bytes
  | OnUninstall bytes
  | Validate Env CallData bytes
  | MarkConsumed bytes32

fun validator_call :: "address \<Rightarrow> validator_op \<Rightarrow> Validator \<Rightarrow> sol_error + Validator" where
  "validator_call sender (SetOwner a) v = setOwner sender v a"
| "validator_call sender (SetPaused b) v = setPaused sender v b"
| "validator_call sender (SetModuleAuthorized m b) v = setModuleAuthorized sender v m b"
| "validator_call sender (OnInstall d) v = onInstall v d"
| "validator_call sender (OnUninstall d) v = onUninstall v d"
| "validator_call sender (Validate env cd vaa) v =
     (case validate env sender v cd vaa of Inl e \<Rightarrow> Inl e | Inr r \<Rightarrow> Inr v)"
| "validator_call sender (MarkConsumed n) v = markConsumed sender v n"

definition validator_tx :: "address \<times> validator_op \<Rightarrow> Validator \<Rightarrow> Validator" where
  "validator_tx tx v = (case validator_call (fst tx) (snd tx) v of Inl e \<Rightarrow> v | Inr v' \<Rightarrow> v')"

definition validator_run :: "(address \<times> validator_op) list \<Rightarrow> Validator \<Rightarrow> Validator" where
  "validator_run txs v = fold validator_tx txs v"

section \<open>AztecGuardianRecoveryValidator\<close>

record GuardianValidator =
  g_adapter :: address
  g_owner :: address
  g_paused :: bool
  g_consumed :: "bytes32 \<Rightarrow> bool"

fun requireSameArray_loop :: "address list \<Rightarrow> address list \<Rightarrow> sol_error + unit" where
  "requireSameArray_loop [] b = Inr ()"
| "requireSameArray_loop (x # xs) [] = Inl Panic"
| "requireSameArray_loop (x # xs) (y # ys) =
     (if \<not> (x = y) then Inl (Revert ''owners diff'') else requireSameArray_loop xs ys)"

definition requireSameArray :: "address list \<Rightarrow> address list \<Rightarrow> sol_error + unit" where
  "requireSameArray a b =
     (if \<not> (length a = length b) then Inl (Revert ''owners length'')
      else requireSameArray_loop a b)"

definition g_validateCallData ::
  "RecoveryArgs option \<Rightarrow> address \<Rightarrow> address list \<Rightarrow> nat \<Rightarrow> bytes32 \<Rightarrow> sol_error + unit" where
  "g_validateCallData encodedData expectedSafe expectedOwners expectedThr expectedNonce =
     (case encodedData of
        None \<Rightarrow> Inl EmptyRevert
      | Some a \<Rightarrow>
          if \<not> (a_safe a = expectedSafe) then Inl (Revert ''safe mismatch'')
          else if \<not> (a_threshold a = expectedThr) then Inl (Revert ''thr mismatch'')
          else if \<not> (a_nonce a = expectedNonce) then Inl (Revert ''nonce mismatch'')
          else requireSameArray expectedOwners (a_owners a))"

definition g_validate ::
  "Env \<Rightarrow> address \<Rightarrow> GuardianValidator \<Rightarrow> CallData \<Rightarrow> bytes \<Rightarrow> sol_error + bytes4" where
  "g_validate env sender g callData vaa =
     (if \<not> (\<not> g_paused g) then Inl (Revert ''paused'')
      else if \<not> (g_adapter g \<noteq> 0) then Inl (Revert ''adapter unset'')
      else if \<not> (sender = g_adapter g) then Inl (Revert ''only adapter'')
      else
        let (payload, ok) = parseAndVerifyVM env vaa in
        if \<not> ok then Inl (Revert ''invalid VAA'')
        else case abi_decode_payload env payload of
          None \<Rightarrow> Inl EmptyRevert
        | Some p \<Rightarrow>
            if \<not> (p_version p = 1) then Inl (Revert ''bad version'')
            else if \<not> (p_chainId p = block_chainid env) then Inl (Revert ''wrong chain'')
            else if \<not> (block_timestamp env \<le> p_expiry p) then Inl (Revert ''expired'')
            else if \<not> (\<not> g_consumed g (p_nonce p)) then Inl (Revert ''replay'')
            else if \<not> (cd_selector callData = applyRecovery_selector env)
              then Inl (Revert ''bad selector'')
            else (case g_validateCallData (cd_args callData) (p_safe p) (p_owners p)
                        (p_threshold p) (p_nonce p) of
                    Inl e \<Rightarrow> Inl e
                  | Inr u \<Rightarrow> Inr MAGICVALUE))"

section \<open>SafeRecoveryModule: applyRecovery\<close>

record Module =
  m_paused :: bool
  m_owner :: address
  aztecRecoveryContract :: "address \<Rightarrow> bytes32"
  consumedVaas :: "bytes32 \<Rightarrow> bool"

text \<open>
  The storage one transaction can touch: the module, its validator, and the Safe
  contracts by address (\<open>None\<close> where no Safe is deployed).
\<close>

record 's world =
  w_module :: Module
  w_validator :: Validator
  w_safes :: "address \<Rightarrow> 's option"

text \<open>
  The sub-calls \<open>applyRecovery\<close> issues that can change state, each recorded with its
  success flag and with the storage it ran against.
\<close>

datatype subcall = ModuleCall SafeCall | ConsumeNonce bytes32

record 's step =
  st_call :: subcall
  st_ok :: bool
  st_before :: "'s world"

definition SENTINEL :: address where
  "SENTINEL = 0x1"

text \<open>
  \<open>_moduleCall\<close>: a revert of the gate itself bubbles up; a gate that returns
  \<open>success = false\<close> makes the module revert with \<open>SafeCallFailed\<close>.
\<close>

definition moduleCall ::
  "'s ISafe \<Rightarrow> address \<Rightarrow> address \<Rightarrow> SafeCall \<Rightarrow> 's world
     \<Rightarrow> 's step list \<times> (sol_error + 's world)" where
  "moduleCall S this safe data w =
     (case w_safes w safe of
        None \<Rightarrow> ([], Inl EmptyRevert)
      | Some s \<Rightarrow>
          (case i_execTransactionFromModuleReturnData S this data s of
             Inl e \<Rightarrow> ([\<lparr>st_call = ModuleCall data, st_ok = False, st_before = w\<rparr>], Inl e)
           | Inr (success, s') \<Rightarrow>
               ([\<lparr>st_call = ModuleCall data, st_ok = success, st_before = w\<rparr>],
                if \<not> success then Inl SafeCallFailed
                else Inr (w\<lparr>w_safes := (w_safes w)(safe := Some s')\<rparr>))))"

text \<open>
  Step 3: for each new owner, mark the first slot of \<open>current\<close> that holds it, or add
  it with the threshold the Safe reports at that moment.
\<close>

fun add_loop ::
  "'s ISafe \<Rightarrow> address \<Rightarrow> address \<Rightarrow> address list \<Rightarrow> address list \<Rightarrow> bool list \<Rightarrow> 's world
     \<Rightarrow> 's step list \<times> (sol_error + bool list \<times> 's world)" where
  "add_loop S this safe current [] keep w = ([], Inr (keep, w))"
| "add_loop S this safe current (ow # os) keep w =
     (case first_index current ow of
        Some j \<Rightarrow> add_loop S this safe current os (keep[j := True]) w
      | None \<Rightarrow>
          (case w_safes w safe of
             None \<Rightarrow> ([], Inl EmptyRevert)
           | Some s \<Rightarrow>
               (case moduleCall S this safe
                       (AddOwnerWithThreshold ow (i_getThreshold S s)) w of
                  (tr, Inl e) \<Rightarrow> (tr, Inl e)
                | (tr, Inr w') \<Rightarrow>
                    (case add_loop S this safe current os keep w' of
                       (tr', r) \<Rightarrow> (tr @ tr', r)))))"

text \<open>
  Step 4: \<open>j\<close> runs over \<open>current\<close> (the last numeric argument counts the iterations
  that remain). The predecessor is taken from \<open>current\<close>, the list read in step 2.
\<close>

fun remove_loop ::
  "'s ISafe \<Rightarrow> address \<Rightarrow> address \<Rightarrow> address list \<Rightarrow> bool list \<Rightarrow> nat \<Rightarrow> nat \<Rightarrow> 's world
     \<Rightarrow> 's step list \<times> (sol_error + 's world)" where
  "remove_loop S this safe current keep j 0 w = ([], Inr w)"
| "remove_loop S this safe current keep j (Suc n) w =
     (if \<not> keep ! j then
        let prev = (if j = 0 then SENTINEL else current ! (j - 1)) in
        (case w_safes w safe of
           None \<Rightarrow> ([], Inl EmptyRevert)
         | Some s \<Rightarrow>
             (case moduleCall S this safe
                     (RemoveOwner prev (current ! j) (i_getThreshold S s)) w of
                (tr, Inl e) \<Rightarrow> (tr, Inl e)
              | (tr, Inr w') \<Rightarrow>
                  (case remove_loop S this safe current keep (j + 1) n w' of
                     (tr', r) \<Rightarrow> (tr @ tr', r))))
      else remove_loop S this safe current keep (j + 1) n w)"

text \<open>
  Step 6: the low-level call of \<open>markConsumed\<close>; the validator sees the module as the
  caller.
\<close>

definition consumeNonce ::
  "address \<Rightarrow> bytes32 \<Rightarrow> 's world \<Rightarrow> 's step list \<times> (sol_error + 's world)" where
  "consumeNonce this nonce w =
     (case markConsumed this (w_validator w) nonce of
        Inl e \<Rightarrow> ([\<lparr>st_call = ConsumeNonce nonce, st_ok = False, st_before = w\<rparr>],
                  Inl ConsumeNonceFailed)
      | Inr v' \<Rightarrow> ([\<lparr>st_call = ConsumeNonce nonce, st_ok = True, st_before = w\<rparr>],
                  Inr (w\<lparr>w_validator := v'\<rparr>)))"

text \<open>
  \<open>applyRecovery\<close> at the module's address \<open>this\<close>. A revert inside
  \<open>validator.validate\<close>, \<open>getOwners\<close> or \<open>getThreshold\<close> bubbles up.
\<close>

definition applyRecovery ::
  "'s ISafe \<Rightarrow> Env \<Rightarrow> address \<Rightarrow> 's world
     \<Rightarrow> address \<Rightarrow> address list \<Rightarrow> nat \<Rightarrow> bytes32 \<Rightarrow> bytes
     \<Rightarrow> 's step list \<times> (sol_error + 's world)" where
  "applyRecovery S env this w targetSafe newOwners newThreshold nonce vaa =
     (if m_paused (w_module w) then ([], Inl ModulePaused)
      else
        let callData = \<lparr>cd_selector = applyRecovery_selector env,
                        cd_args = Some \<lparr>a_safe = targetSafe, a_owners = newOwners,
                                        a_threshold = newThreshold, a_nonce = nonce,
                                        a_vaa = vaa\<rparr>\<rparr>
        in
        case validate env this (w_validator w) callData vaa of
          Inl e \<Rightarrow> ([], Inl e)
        | Inr magic \<Rightarrow>
            if magic \<noteq> MAGICVALUE then ([], Inl ValidationFailed)
            else
              (case w_safes w targetSafe of
                 None \<Rightarrow> ([], Inl EmptyRevert)
               | Some s0 \<Rightarrow>
                   let current = i_getOwners S s0;
                       keep = replicate (length current) False
                   in
                   (case add_loop S this targetSafe current newOwners keep w of
                      (tr1, Inl e) \<Rightarrow> (tr1, Inl e)
                    | (tr1, Inr (keep', w1)) \<Rightarrow>
                        (case remove_loop S this targetSafe current keep' 0 (length current) w1 of
                           (tr2, Inl e) \<Rightarrow> (tr1 @ tr2, Inl e)
                         | (tr2, Inr w2) \<Rightarrow>
                             (case moduleCall S this targetSafe (ChangeThreshold newThreshold) w2 of
                                (tr3, Inl e) \<Rightarrow> (tr1 @ tr2 @ tr3, Inl e)
                              | (tr3, Inr w3) \<Rightarrow>
                                  (case consumeNonce this nonce w3 of
                                     (tr4, r) \<Rightarrow> (tr1 @ tr2 @ tr3 @ tr4, r)))))))"

text \<open>
  A call as a transaction: when it reverts, the storage is the one before the call.
\<close>

definition transact ::
  "'s world \<Rightarrow> 's step list \<times> (sol_error + 's world) \<Rightarrow> 's world \<times> sol_error option" where
  "transact w r = (case snd r of Inl e \<Rightarrow> (w, Some e) | Inr w' \<Rightarrow> (w', None))"

section \<open>Relayer: the dedup gate\<close>











section \<open>Relayer: the destination submitter\<close>

text \<open>
  What the node answers: once before the loop, and once per attempt. \<open>None\<close> is an
  error return, except for \<open>sendTransaction\<close>, where \<open>None\<close> is success and
  \<open>Some errStr\<close> the error text.
\<close>

record rpc_setup =
  abiParseOk :: bool
  abiPackOk :: bool
  networkID :: "int option"

record rpc_attempt =
  nonceAt :: "nat option"
  pendingNonceAt :: "nat option"
  suggestGasPrice :: "int option"
  signTxOk :: bool
  sendTransaction :: "string option"

record signed_tx =
  tx_nonce :: nat
  tx_gasPrice :: int

datatype send_error =
    ABIParseError
  | ABIPackError
  | ChainIDError
  | ConfirmedNonceError
  | PendingNonceError
  | GasPriceError
  | SignError
  | SendFailed string
  | NonceConflicts nat

definition getFreshNonce :: "rpc_attempt \<Rightarrow> send_error + nat" where
  "getFreshNonce a =
     (case nonceAt a of
        None \<Rightarrow> Inl ConfirmedNonceError
      | Some confirmedNonce \<Rightarrow>
          (case pendingNonceAt a of
             None \<Rightarrow> Inl PendingNonceError
           | Some pendingNonce \<Rightarrow>
               Inr (if pendingNonce > confirmedNonce then pendingNonce else confirmedNonce)))"

fun hasPrefix :: "string \<Rightarrow> string \<Rightarrow> bool" where
  "hasPrefix s [] = True"
| "hasPrefix [] (c # cs) = False"
| "hasPrefix (x # xs) (c # cs) = (x = c \<and> hasPrefix xs cs)"

fun stringsContains :: "string \<Rightarrow> string \<Rightarrow> bool" where
  "stringsContains [] substr = (substr = [])"
| "stringsContains (x # xs) substr = (hasPrefix (x # xs) substr \<or> stringsContains xs substr)"

definition isNonceConflict :: "string \<Rightarrow> bool" where
  "isNonceConflict errStr =
     (stringsContains errStr ''replacement transaction underpriced''
      \<or> stringsContains errStr ''nonce too low''
      \<or> stringsContains errStr ''already known'')"

definition maxRetries :: nat where
  "maxRetries = 3"

text \<open>
  The retry loop: \<open>attempt\<close> counts from 0 and the next argument counts the attempts
  that remain. The first component of the result lists the transactions handed to
  \<open>SendTransaction\<close>, in order.
\<close>

fun retry_loop ::
  "(nat \<Rightarrow> rpc_attempt) \<Rightarrow> nat \<Rightarrow> nat \<Rightarrow> signed_tx list \<times> (send_error + signed_tx)" where
  "retry_loop rpc attempt 0 = ([], Inl (NonceConflicts maxRetries))"
| "retry_loop rpc attempt (Suc n) =
     (case getFreshNonce (rpc attempt) of
        Inl e \<Rightarrow> ([], Inl e)
      | Inr nonce \<Rightarrow>
          (case suggestGasPrice (rpc attempt) of
             None \<Rightarrow> ([], Inl GasPriceError)
           | Some suggested \<Rightarrow>
               let gasPrice = (if attempt > 0 then suggested + suggested div 5 else suggested);
                   tx = \<lparr>tx_nonce = nonce, tx_gasPrice = gasPrice\<rparr>
               in
               if \<not> signTxOk (rpc attempt) then ([], Inl SignError)
               else
                 (case sendTransaction (rpc attempt) of
                    Some errStr \<Rightarrow>
                      if isNonceConflict errStr
                      then (case retry_loop rpc (attempt + 1) n of (txs, r) \<Rightarrow> (tx # txs, r))
                      else ([tx], Inl (SendFailed errStr))
                  | None \<Rightarrow> ([tx], Inr tx))))"

definition SendVerifyTransaction ::
  "rpc_setup \<Rightarrow> (nat \<Rightarrow> rpc_attempt) \<Rightarrow> signed_tx list \<times> (send_error + signed_tx)" where
  "SendVerifyTransaction setup rpc =
     (if \<not> abiParseOk setup then ([], Inl ABIParseError)
      else if \<not> abiPackOk setup then ([], Inl ABIPackError)
      else case networkID setup of
             None \<Rightarrow> ([], Inl ChainIDError)
           | Some chainID \<Rightarrow> retry_loop rpc 0 maxRetries)"

text \<open>
  A node that answers every submission with a nonce conflict, suggests the gas prices
  \<open>g0\<close>, \<open>g1\<close>, \<open>g2\<close> in the three attempts and reports moving counters.
\<close>

definition scenario_rpc :: "int \<Rightarrow> int \<Rightarrow> int \<Rightarrow> nat \<Rightarrow> rpc_attempt" where
  "scenario_rpc g0 g1 g2 i =
     \<lparr>nonceAt = Some (7 + i), pendingNonceAt = Some (9 - i),
      suggestGasPrice = Some (if i = 0 then g0 else if i = 1 then g1 else g2),
      signTxOk = True, sendTransaction = Some ''nonce too low: next nonce 10''\<rparr>"

definition scenario_setup :: rpc_setup where
  "scenario_setup = \<lparr>abiParseOk = True, abiPackOk = True, networkID = Some 11155111\<rparr>"

section \<open>The order of the guards, as lists\<close>

text \<open>
  A guard is a condition that must hold and the error raised when it does not; a list
  of guards fails with the error of its first guard that does not hold.
\<close>

fun first_failure :: "(bool \<times> 'e) list \<Rightarrow> 'e option" where
  "first_failure [] = None"
| "first_failure ((holds, e) # gs) = (if holds then first_failure gs else Some e)"

definition guard_result :: "sol_error option \<Rightarrow> sol_error + bytes4" where
  "guard_result f = (case f of None \<Rightarrow> Inr MAGICVALUE | Some e \<Rightarrow> Inl e)"

text \<open>The guards of \<open>AztecRecoveryValidator.validate\<close>, in the order of the contract.\<close>

definition validate_guards ::
  "Env \<Rightarrow> address \<Rightarrow> Validator \<Rightarrow> CallData \<Rightarrow> bytes \<Rightarrow> (bool \<times> sol_error) list" where
  "validate_guards env sender v callData vaa =
     [(\<not> v_paused v, ValidatorPaused),
      (authorizedModules v sender, NotAuthorizedModule),
      (snd (parseAndVerifyVM env vaa), InvalidVAA)]
     @ (case abi_decode_payload env (fst (parseAndVerifyVM env vaa)) of
          None \<Rightarrow> [(False, EmptyRevert)]
        | Some p \<Rightarrow>
            [(p_version p = 1, BadVersion),
             (p_chainId p = block_chainid env, WrongChain),
             (block_timestamp env \<le> p_expiry p, Expired),
             (\<not> consumed v (p_nonce p), NonceAlreadyConsumed),
             (cd_selector callData = applyRecovery_selector env, BadSelector)]
            @ (case cd_args callData of
                 None \<Rightarrow> [(False, EmptyRevert)]
               | Some a \<Rightarrow>
                   [(a_safe a = p_safe p, SafeMismatch),
                    (a_threshold a = p_threshold p, ThresholdMismatch),
                    (a_nonce a = p_nonce p, NonceMismatch),
                    (a_owners a = p_owners p, OwnersMismatch)]))"

text \<open>
  The guards of \<open>AztecGuardianRecoveryValidator.validate\<close>, in the order of the
  contract.
\<close>

definition g_validate_guards ::
  "Env \<Rightarrow> address \<Rightarrow> GuardianValidator \<Rightarrow> CallData \<Rightarrow> bytes \<Rightarrow> (bool \<times> sol_error) list" where
  "g_validate_guards env sender g callData vaa =
     [(\<not> g_paused g, Revert ''paused''),
      (g_adapter g \<noteq> 0, Revert ''adapter unset''),
      (sender = g_adapter g, Revert ''only adapter''),
      (snd (parseAndVerifyVM env vaa), Revert ''invalid VAA'')]
     @ (case abi_decode_payload env (fst (parseAndVerifyVM env vaa)) of
          None \<Rightarrow> [(False, EmptyRevert)]
        | Some p \<Rightarrow>
            [(p_version p = 1, Revert ''bad version''),
             (p_chainId p = block_chainid env, Revert ''wrong chain''),
             (block_timestamp env \<le> p_expiry p, Revert ''expired''),
             (\<not> g_consumed g (p_nonce p), Revert ''replay''),
             (cd_selector callData = applyRecovery_selector env, Revert ''bad selector'')]
            @ (case cd_args callData of
                 None \<Rightarrow> [(False, EmptyRevert)]
               | Some a \<Rightarrow>
                   [(a_safe a = p_safe p, Revert ''safe mismatch''),
                    (a_threshold a = p_threshold p, Revert ''thr mismatch''),
                    (a_nonce a = p_nonce p, Revert ''nonce mismatch''),
                    (length (p_owners p) = length (a_owners a), Revert ''owners length''),
                    (a_owners a = p_owners p, Revert ''owners diff'')]))"

text \<open>
  The order the specification gives for the same guards: version, chain, expiry,
  nonce, calling module, call arguments.
\<close>

definition specified_guards ::
  "Env \<Rightarrow> address \<Rightarrow> Validator \<Rightarrow> CallData \<Rightarrow> bytes \<Rightarrow> (bool \<times> sol_error) list" where
  "specified_guards env sender v callData vaa =
     (case abi_decode_payload env (fst (parseAndVerifyVM env vaa)) of
        None \<Rightarrow> [(False, EmptyRevert)]
      | Some p \<Rightarrow>
          [(p_version p = 1, BadVersion),
           (p_chainId p = block_chainid env, WrongChain),
           (block_timestamp env \<le> p_expiry p, Expired),
           (\<not> consumed v (p_nonce p), NonceAlreadyConsumed),
           (authorizedModules v sender, NotAuthorizedModule)]
          @ (case cd_args callData of
               None \<Rightarrow> [(False, EmptyRevert)]
             | Some a \<Rightarrow>
                 [(a_safe a = p_safe p, SafeMismatch),
                  (a_threshold a = p_threshold p, ThresholdMismatch),
                  (a_nonce a = p_nonce p, NonceMismatch),
                  (a_owners a = p_owners p, OwnersMismatch)]))"

section \<open>A recovery scenario\<close>

text \<open>
  A Safe at \<open>0x5AFE\<close> with owners \<open>[0xA, 0xB, 0xC]\<close> and the module at \<open>0x100\<close>
  enabled; an attested intent for that Safe with owners \<open>[0xA, 0xD]\<close>, threshold 1,
  nonce 7 and expiry 2000, on chain 11155111 at time 1000.
\<close>

definition scenario_payload :: RecoveryPayload where
  "scenario_payload =
     \<lparr>p_version = 1, p_chainId = 11155111, p_safe = 0x5AFE, p_owners = [0xA, 0xD],
      p_threshold = 1, p_nonce = 7, p_expiry = 2000\<rparr>"

definition scenario_env :: Env where
  "scenario_env =
     \<lparr>block_chainid = 11155111, block_timestamp = 1000,
      parseAndVerifyVM = (\<lambda>vaa. ([], True)),
      abi_decode_payload = (\<lambda>payload. Some scenario_payload),
      applyRecovery_selector = 0\<rparr>"

definition scenario_safe :: "nat \<Rightarrow> MockSafe" where
  "scenario_safe t =
     \<lparr>owners = [0xA, 0xB, 0xC], threshold = t,
      isOwner = (\<lambda>a. a = 0xA \<or> a = 0xB \<or> a = 0xC),
      modules = (\<lambda>a. a = 0x100)\<rparr>"

definition scenario_validator :: Validator where
  "scenario_validator =
     \<lparr>v_owner = 0x1, v_paused = False, authorizedModules = (\<lambda>a. a = 0x100),
      consumed = (\<lambda>n. False)\<rparr>"

definition scenario_world :: "nat \<Rightarrow> MockSafe world" where
  "scenario_world t =
     \<lparr>w_module = \<lparr>m_paused = False, m_owner = 0x1, aztecRecoveryContract = (\<lambda>a. 0),
                  consumedVaas = (\<lambda>h. False)\<rparr>,
      w_validator = scenario_validator,
      w_safes = [0x5AFE \<mapsto> scenario_safe t]\<rparr>"

definition scenario_callData :: CallData where
  "scenario_callData =
     \<lparr>cd_selector = 0,
      cd_args = Some \<lparr>a_safe = 0x5AFE, a_owners = [0xA, 0xD], a_threshold = 1, a_nonce = 7,
                      a_vaa = []\<rparr>\<rparr>"

section \<open>Successful steps\<close>

text \<open>What a successful run of a part of the sequence guarantees about its steps.\<close>

definition steps_ok :: "'s world \<Rightarrow> 's step list \<Rightarrow> bool" where
  "steps_ok w tr \<longleftrightarrow>
     (\<forall>st \<in> set tr. st_ok st \<and> (\<exists>c. st_call st = ModuleCall c)
        \<and> w_validator (st_before st) = w_validator w)"

section \<open>Integer values of byte strings\<close>

text \<open>
  The two readings of a byte string as an integer, as the specification names them:
  little-endian (the first byte is the least significant) and big-endian (the first byte
  is the most significant).
\<close>

definition le_value :: "bytes \<Rightarrow> nat" where
  "le_value bs = foldr (\<lambda>b acc. unat b + 256 * acc) bs 0"

definition be_value :: "bytes \<Rightarrow> nat" where
  "be_value bs = foldl (\<lambda>acc b. 256 * acc + unat b) 0 bs"

section \<open>Byte order\<close>

text \<open>Unrolling the counted loops on a numeral count.\<close>

lemma reverseBytes20_loop_numeral:
  "reverseBytes20_loop input i (numeral k) reversed =
     reverseBytes20_loop input (i + 1) (pred_numeral k)
       (reversed OR push_bit (8 * i)
          (ucast (ucast (drop_bit 152 (push_bit (i * 8) input)) :: uint8)))"
  by (simp add: numeral_eq_Suc)

lemma reverseBytes20_loop_one:
  "reverseBytes20_loop input i 1 reversed =
     reversed OR push_bit (8 * i)
       (ucast (ucast (drop_bit 152 (push_bit (i * 8) input)) :: uint8))"
  using reverseBytes20_loop.simps(2) [of input i 0 reversed] by simp

text \<open>Bit \<open>m\<close> of the result of the loop is bit \<open>152 + m - 16 * (m div 8)\<close> of its input.\<close>

lemma bit_reversed_byte:
  fixes x :: bytes20
  assumes "i < 20"
  shows "bit (push_bit (8 * i) (ucast (ucast (drop_bit 152 (push_bit (i * 8) x)) :: uint8)) :: uint160) m
         \<longleftrightarrow> 8 * i \<le> m \<and> m < 8 * i + 8 \<and> bit x (152 + m - 16 * i)"
proof -
  have "bit (push_bit (8 * i) (ucast (ucast (drop_bit 152 (push_bit (i * 8) x)) :: uint8)) :: uint160) m
      \<longleftrightarrow> 8 * i \<le> m \<and> m < 160 \<and> m - 8 * i < 8 \<and> 152 + (m - 8 * i) < 160
          \<and> i * 8 \<le> 152 + (m - 8 * i) \<and> bit x (152 + (m - 8 * i) - i * 8)"
    by (auto simp: bit_push_bit_iff bit_ucast_iff bit_drop_bit_eq dest: bit_imp_le_length)
  also have "\<dots> \<longleftrightarrow> 8 * i \<le> m \<and> m < 8 * i + 8 \<and> bit x (152 + m - 16 * i)"
  proof -
    have "152 + (m - 8 * i) - i * 8 = 152 + m - 16 * i" if "8 * i \<le> m" using that by simp
    then show ?thesis using assms by (auto simp: algebra_simps)
  qed
  finally show ?thesis .
qed

lemma bit_reverseBytes20_loop:
  "i + n \<le> 20 \<Longrightarrow>
   bit (reverseBytes20_loop x i n acc) m
     \<longleftrightarrow> bit acc m \<or> (8 * i \<le> m \<and> m < 8 * (i + n) \<and> bit x (152 + m - 16 * (m div 8)))"
proof (induction n arbitrary: i acc)
  case 0
  then show ?case by auto
next
  case (Suc n)
  have i: "i < 20" using Suc.prems by simp
  let ?b = "push_bit (8 * i) (ucast (ucast (drop_bit 152 (push_bit (i * 8) x)) :: uint8)) :: uint160"
  have step: "reverseBytes20_loop x i (Suc n) acc = reverseBytes20_loop x (i + 1) n (acc OR ?b)"
    by (simp add: Let_def)
  have b: "bit ?b m \<longleftrightarrow> 8 * i \<le> m \<and> m < 8 * i + 8 \<and> bit x (152 + m - 16 * (m div 8))"
  proof (cases "8 * i \<le> m \<and> m < 8 * i + 8")
    case True
    then have "m div 8 = i" by arith
    then show ?thesis using bit_reversed_byte [OF i, of x m] by simp
  next
    case False
    then show ?thesis using bit_reversed_byte [OF i, of x m] by blast
  qed
  have IH: "bit (reverseBytes20_loop x (i + 1) n (acc OR ?b)) m
     \<longleftrightarrow> bit (acc OR ?b) m
         \<or> (8 * (i + 1) \<le> m \<and> m < 8 * (i + 1 + n) \<and> bit x (152 + m - 16 * (m div 8)))"
    using Suc.prems by (intro Suc.IH) simp
  have r: "8 * i \<le> m \<and> m < 8 * (i + Suc n) \<longleftrightarrow>
      (8 * i \<le> m \<and> m < 8 * i + 8) \<or> (8 * (i + 1) \<le> m \<and> m < 8 * (i + 1 + n))"
    by auto
  show ?case unfolding step IH bit_or_iff b using r by blast
qed

lemma bit_reverseBytes20:
  "bit (reverseBytes20 x) m \<longleftrightarrow> m < 160 \<and> bit x (152 + m - 16 * (m div 8))"
  using bit_reverseBytes20_loop [of 0 20 x 0 m] by (auto simp: reverseBytes20_def)

lemma reverse_index:
  fixes m :: nat
  assumes "m < 160"
  shows "152 + m - 16 * (m div 8) < 160"
    and "152 + (152 + m - 16 * (m div 8)) - 16 * ((152 + m - 16 * (m div 8)) div 8) = m"
proof -
  define q r where "q = m div 8" and "r = m mod 8"
  have m: "m = 8 * q + r" and r: "r < 8" by (simp_all add: q_def r_def)
  have q: "q < 20" using assms m by simp
  have k: "152 + m - 16 * q = 8 * (19 - q) + r" using m q by simp
  have kd: "(8 * (19 - q) + r) div 8 = 19 - q" using r by simp
  show "152 + m - 16 * (m div 8) < 160" unfolding q_def [symmetric] k using r q by simp
  show "152 + (152 + m - 16 * (m div 8)) - 16 * ((152 + m - 16 * (m div 8)) div 8) = m"
    unfolding q_def [symmetric] k kd using m q by simp
qed

text \<open>
  The loop implementation is an involution: reversing twice gives the value back.
\<close>

lemma reverseBytes20_involution: "reverseBytes20 (reverseBytes20 x) = x"
proof (rule bit_eqI)
  fix m
  assume "possible_bit TYPE(160 word) m"
  then have m: "m < 160" by (simp add: possible_bit_def)
  define k where "k = 152 + m - 16 * (m div 8)"
  have k: "k < 160" and inv: "152 + k - 16 * (k div 8) = m"
    using reverse_index [OF m] by (simp_all only: k_def)
  have "bit (reverseBytes20 (reverseBytes20 x)) m \<longleftrightarrow> bit (reverseBytes20 x) k"
    unfolding bit_reverseBytes20 [of "reverseBytes20 x" m] k_def using m by blast
  also have "\<dots> \<longleftrightarrow> bit x (152 + k - 16 * (k div 8))"
    unfolding bit_reverseBytes20 [of x k] using k by blast
  finally show "bit (reverseBytes20 (reverseBytes20 x)) m = bit x m"
    unfolding inv .
qed

text \<open>
  C10. \<open>reverseBytes20Assembly\<close> is documented as an alternative implementation of
  \<open>reverseBytes20\<close>. On the 20-byte value whose last byte is 1 and whose other bytes
  are 0 the loop returns \<open>2 ^ 152\<close> (the byte moved to the front) and the assembly
  returns \<open>2 ^ 56\<close>: it reads the low 12 bytes of the stack word, which are padding,
  and so only sees the last 8 bytes of the input.
\<close>

theorem reverseBytes20Assembly_differs:
  "reverseBytes20 1 = 5708990770823839524233143877797980545530986496
   \<and> reverseBytes20Assembly 1 = 72057594037927936
   \<and> reverseBytes20Assembly 1 \<noteq> reverseBytes20 1"
proof -
  have l: "reverseBytes20 1 = 5708990770823839524233143877797980545530986496"
    by (simp add: reverseBytes20_def reverseBytes20_loop_numeral reverseBytes20_loop_one)
  have a: "reverseBytes20Assembly 1 = 72057594037927936"
    by (simp add: reverseBytes20Assembly_def asm_byte_def)
  have "(72057594037927936 :: 160 word) \<noteq> 5708990770823839524233143877797980545530986496"
    by simp
  with l a show ?thesis by simp
qed


section \<open>The verify path reads little-endian fields\<close>

lemma le_value_Nil [simp]: "le_value [] = 0" by (simp add: le_value_def)
lemma le_value_Cons [simp]: "le_value (b # bs) = unat b + 256 * le_value bs" by (simp add: le_value_def)

lemma be_value_rev: "be_value (rev bs) = le_value bs"
  by (induction bs) (simp_all add: be_value_def le_value_def)

lemma unat_byte_less: "unat (b::byte) < 256"
  using unsigned_less [of b, where ?'a = nat] by simp


lemma byte_shift_bound:
  fixes b :: byte
  assumes "k + 8 \<le> n"
  shows "2 ^ k * unat b < (2::nat) ^ n"
proof -
  have "unat b < 2 ^ 8" using unat_byte_less [of b] by simp
  then have "2 ^ k * unat b < 2 ^ k * (2::nat) ^ 8" by simp
  also have "\<dots> = 2 ^ (k + 8)" by (simp add: power_add)
  also have "\<dots> \<le> 2 ^ n" using assms by (simp add: power_increasing)
  finally show ?thesis .
qed

lemma unat_push_byte:
  fixes b :: byte
  assumes "k + 8 \<le> LENGTH('a::len)"
  shows "unat (push_bit k (ucast b :: 'a word)) = 2 ^ k * unat b"
proof -
  have l8: "8 \<le> LENGTH('a)" using assms by simp
  have "unat b < 2 ^ LENGTH('a)"
    using byte_shift_bound [of 0 "LENGTH('a)" b] l8 by simp
  then have ub: "unat (ucast b :: 'a word) = unat b"
    by (simp add: unsigned_ucast_eq take_bit_nat_eq_self)
  have "unat (push_bit k (ucast b :: 'a word)) = take_bit LENGTH('a) (push_bit k (unat b))"
    by (simp add: unsigned_push_bit_eq ub)
  also have "\<dots> = push_bit k (unat b)"
    using byte_shift_bound [OF assms, of b]
    by (simp add: take_bit_nat_eq_self push_bit_eq_mult mult.commute)
  finally show ?thesis by (simp add: push_bit_eq_mult mult.commute)
qed

lemma or_push_byte:
  fixes addr :: "'a::len word" and b :: byte
  assumes "unat addr < 2 ^ k" "k + 8 \<le> LENGTH('a)"
  shows "unat (addr OR push_bit k (ucast b)) = unat addr + 2 ^ k * unat b"
proof -
  have hi: "\<not> bit addr n" if "k \<le> n" for n
  proof -
    have "unat addr < 2 ^ n" using assms(1) that
      by (meson less_le_trans one_le_numeral power_increasing)
    then have "unat addr div 2 ^ n = 0" by simp
    then have "\<not> bit (unat addr) n" by (simp add: bit_iff_odd)
    then show ?thesis by (simp add: bit_unsigned_iff)
  qed
  have d: "addr AND push_bit k (ucast b) = 0"
    by (rule bit_eqI) (auto simp: bit_and_iff bit_push_bit_iff hi)
  have u: "unat (push_bit k (ucast b :: 'a word)) = 2 ^ k * unat b"
    by (rule unat_push_byte [OF assms(2)])
  have "unat addr < 2 ^ k" by fact
  moreover have "2 ^ k * unat b + 2 ^ k \<le> (2::nat) ^ (k + 8)"
  proof -
    have "unat b + 1 \<le> 2 ^ 8" using unat_byte_less [of b] by simp
    then have "2 ^ k * (unat b + 1) \<le> 2 ^ k * (2::nat) ^ 8" by (rule mult_le_mono2)
    then show ?thesis by (simp add: power_add algebra_simps)
  qed
  moreover have "(2::nat) ^ (k + 8) \<le> 2 ^ LENGTH('a)" using assms(2) by (simp add: power_increasing)
  ultimately have "unat addr + unat (push_bit k (ucast b :: 'a word)) < 2 ^ LENGTH('a)"
    using u by linarith
  then have "unat (addr + push_bit k (ucast b)) = unat addr + unat (push_bit k (ucast b :: 'a word))"
    using unat_add_lem by blast
  with d u show ?thesis
    by (simp add: disjunctive_add_eq_or)
qed

lemma extractAddressLE_loop_value:
  "offset + i + n \<le> length data \<Longrightarrow> i + n \<le> 20 \<Longrightarrow> unat addr < 2 ^ (8 * i) \<Longrightarrow>
   \<exists>r. extractAddressLE_loop data offset i n addr = Inr r
       \<and> unat r = unat addr + 2 ^ (8 * i) * le_value (take n (drop (offset + i) data))"
proof (induction n arbitrary: i addr)
  case 0
  then show ?case by simp
next
  case (Suc n)
  let ?b = "data ! (offset + i)"
  let ?addr = "addr OR push_bit (8 * i) (ucast ?b)"
  have lt: "offset + i < length data" using Suc.prems by simp
  have v: "unat ?addr = unat addr + 2 ^ (8 * i) * unat ?b"
    using Suc.prems by (intro or_push_byte) simp_all
  have bnd: "unat ?addr < 2 ^ (8 * (i + 1))"
  proof -
    have "unat ?b + 1 \<le> 2 ^ 8" using unat_byte_less [of ?b] by simp
    then have "2 ^ (8 * i) * (unat ?b + 1) \<le> 2 ^ (8 * i) * (2::nat) ^ 8" by (rule mult_le_mono2)
    then have "2 ^ (8 * i) * unat ?b + 2 ^ (8 * i) \<le> (2::nat) ^ (8 * (i + 1))"
      by (simp add: power_add algebra_simps)
    with Suc.prems(3) v show ?thesis by linarith
  qed
  from Suc.IH [of "i + 1" ?addr] Suc.prems bnd
  obtain r where r: "extractAddressLE_loop data offset (i + 1) n ?addr = Inr r"
    and rv: "unat r = unat ?addr + 2 ^ (8 * (i + 1)) * le_value (take n (drop (offset + (i + 1)) data))"
    by auto
  have dr: "drop (offset + i) data = ?b # drop (offset + (i + 1)) data"
    using lt by (simp add: Cons_nth_drop_Suc)
  have "take (Suc n) (drop (offset + i) data) = ?b # take n (drop (offset + (i + 1)) data)"
    by (simp add: dr)
  then have lv: "le_value (take (Suc n) (drop (offset + i) data))
      = unat ?b + 256 * le_value (take n (drop (offset + (i + 1)) data))"
    by simp
  have "extractAddressLE_loop data offset i (Suc n) addr = Inr r" using lt r by simp
  moreover have "unat r = unat addr + 2 ^ (8 * i) * le_value (take (Suc n) (drop (offset + i) data))"
    unfolding lv rv v by (simp add: power_add algebra_simps)
  ultimately show ?case by blast
qed


lemma extractChainIdLE_loop_value:
  "offset + i + n \<le> length data \<Longrightarrow> i + n \<le> 32 \<Longrightarrow> unat addr < 2 ^ (8 * i) \<Longrightarrow>
   \<exists>r. extractChainIdLE_loop data offset i n addr = r
       \<and> unat r = unat addr + 2 ^ (8 * i) * le_value (take n (drop (offset + i) data))"
proof (induction n arbitrary: i addr)
  case 0
  then show ?case by simp
next
  case (Suc n)
  let ?b = "data ! (offset + i)"
  let ?addr = "addr OR push_bit (8 * i) (ucast ?b)"
  have lt: "offset + i < length data" using Suc.prems by simp
  have v: "unat ?addr = unat addr + 2 ^ (8 * i) * unat ?b"
    using Suc.prems by (intro or_push_byte) simp_all
  have bnd: "unat ?addr < 2 ^ (8 * (i + 1))"
  proof -
    have "unat ?b + 1 \<le> 2 ^ 8" using unat_byte_less [of ?b] by simp
    then have "2 ^ (8 * i) * (unat ?b + 1) \<le> 2 ^ (8 * i) * (2::nat) ^ 8" by (rule mult_le_mono2)
    then have "2 ^ (8 * i) * unat ?b + 2 ^ (8 * i) \<le> (2::nat) ^ (8 * (i + 1))"
      by (simp add: power_add algebra_simps)
    with Suc.prems(3) v show ?thesis by linarith
  qed
  from Suc.IH [of "i + 1" ?addr] Suc.prems bnd
  obtain r where r: "extractChainIdLE_loop data offset (i + 1) n ?addr = r"
    and rv: "unat r = unat ?addr + 2 ^ (8 * (i + 1)) * le_value (take n (drop (offset + (i + 1)) data))"
    by auto
  have dr: "drop (offset + i) data = ?b # drop (offset + (i + 1)) data"
    using lt by (simp add: Cons_nth_drop_Suc)
  have "take (Suc n) (drop (offset + i) data) = ?b # take n (drop (offset + (i + 1)) data)"
    by (simp add: dr)
  then have lv: "le_value (take (Suc n) (drop (offset + i) data))
      = unat ?b + 256 * le_value (take n (drop (offset + (i + 1)) data))"
    by simp
  have "extractChainIdLE_loop data offset i (Suc n) addr = r" using lt r by simp
  moreover have "unat r = unat addr + 2 ^ (8 * i) * le_value (take (Suc n) (drop (offset + i) data))"
    unfolding lv rv v by (simp add: power_add algebra_simps)
  ultimately show ?case by blast
qed


lemma le_value_3: "le_value [a, b, c] = unat a + 256 * unat b + 65536 * unat c"
  by simp

lemma take3_drop:
  "n + 3 \<le> length xs \<Longrightarrow> take 3 (drop n xs) = [xs ! n, xs ! (n + 1), xs ! (n + 2)]"
proof -
  assume a: "n + 3 \<le> length xs"
  have "drop n xs = xs ! n # drop (Suc n) xs" using a by (simp add: Cons_nth_drop_Suc)
  moreover have "drop (Suc n) xs = xs ! (Suc n) # drop (Suc (Suc n)) xs"
    using a by (simp add: Cons_nth_drop_Suc)
  moreover have "drop (Suc (Suc n)) xs = xs ! (Suc (Suc n)) # drop (Suc (Suc (Suc n))) xs"
    using a by (simp add: Cons_nth_drop_Suc)
  ultimately show ?thesis by (simp add: numeral_3_eq_3)
qed

lemma extractAddressLE_value:
  assumes "offset + 20 \<le> length data"
  shows "\<exists>r. extractAddressLE data offset = Inr r
             \<and> unat r = be_value (rev (take 20 (drop offset data)))"
  using extractAddressLE_loop_value [of offset 0 20 data 0] assms
  by (simp add: extractAddressLE_def be_value_rev)

lemma extractChainIdLE_value:
  assumes "offset + 3 \<le> length data"
  shows "unat (extractChainIdLE data offset) = le_value (take 3 (drop offset data))"
  using extractChainIdLE_loop_value [of offset 0 3 data 0] assms
  by (simp add: extractChainIdLE_def)

text \<open>
  C7. Every payload the verify path accepts (116 bytes or more) is decoded in full: the
  chain id is the little-endian value of the 3 bytes at offsets 52, 53 and 54, and the
  safe and the candidate are the 20 bytes at offsets 55 and 96 read in reversed byte
  order (the big-endian value of the reversed bytes).
\<close>

theorem verify_extract_fields:
  assumes "116 \<le> length payload"
  shows "\<exists>safeAddress candidate cid.
           verify_extract payload = Inr (safeAddress, candidate, cid)
         \<and> unat cid = le_value (take 3 (drop 52 payload))
         \<and> unat cid = unat (payload ! 52) + 256 * unat (payload ! 53)
                          + 65536 * unat (payload ! 54)
         \<and> unat safeAddress = be_value (rev (take 20 (drop 55 payload)))
         \<and> unat candidate = be_value (rev (take 20 (drop 96 payload)))"
proof -
  obtain s where s: "extractAddressLE payload 55 = Inr s"
    and sv: "unat s = be_value (rev (take 20 (drop 55 payload)))"
    using extractAddressLE_value [of 55 payload] assms by auto
  obtain c where c: "extractAddressLE payload 96 = Inr c"
    and cv: "unat c = be_value (rev (take 20 (drop 96 payload)))"
    using extractAddressLE_value [of 96 payload] assms by auto
  have chv: "unat (extractChainIdLE payload 52) = le_value (take 3 (drop 52 payload))"
    using extractChainIdLE_value [of 52 payload] assms by simp
  have t3: "take 3 (drop 52 payload) = [payload ! 52, payload ! 53, payload ! 54]"
    using take3_drop [of 52 payload] assms by simp
  have "verify_extract payload = Inr (s, c, extractChainIdLE payload 52)"
    using assms s c by (simp add: verify_extract_def)
  moreover have "unat (extractChainIdLE payload 52)
      = unat (payload ! 52) + 256 * unat (payload ! 53) + 65536 * unat (payload ! 54)"
    unfolding chv t3 by (rule le_value_3)
  ultimately show ?thesis using sv cv chv by blast
qed

text \<open>
  A payload of 116 bytes whose bytes 52 to 54 are \<open>a7 36 aa\<close>: the chain id read is
  \<open>0xaa36a7 = 11155111\<close>; a 2-byte reader would have stopped at \<open>0x36a7\<close>.
\<close>

theorem verify_extract_fields_witness:
  "116 \<le> length (replicate 52 0 @ [0xa7, 0x36, 0xaa] @ replicate 61 (0::byte))
   \<and> (\<exists>safeAddress candidate cid.
         verify_extract (replicate 52 0 @ [0xa7, 0x36, 0xaa] @ replicate 61 0)
           = Inr (safeAddress, candidate, cid)
       \<and> unat cid = 11155111)"
proof -
  let ?p = "replicate 52 0 @ [0xa7, 0x36, 0xaa] @ replicate 61 (0::byte)"
  have len: "116 \<le> length ?p" by simp
  have v: "unat (?p ! 52) + 256 * unat (?p ! 53) + 65536 * unat (?p ! 54) = 11155111"
    by (simp add: nth_append)
  from verify_extract_fields [OF len] v show ?thesis using len by metis
qed

section \<open>Decoding is all-or-nothing\<close>

lemma extractAndReverseAddress_ok:
  "offset + 20 \<le> length payload \<Longrightarrow> offset + 20 < 2 ^ 256
   \<Longrightarrow> \<exists>a. extractAndReverseAddress payload offset = Inr a"
  by (simp add: extractAndReverseAddress_def)

lemma extractAndReverseUint16_ok:
  "offset + 2 \<le> length payload \<Longrightarrow> offset + 2 < 2 ^ 256
   \<Longrightarrow> \<exists>c. extractAndReverseUint16 payload offset = Inr c"
  by (simp add: extractAndReverseUint16_def)

lemma verify_extract_ok:
  assumes "116 \<le> length payload"
  shows "\<exists>r. verify_extract payload = Inr r"
proof -
  obtain s where s: "extractAddressLE payload 55 = Inr s"
    using extractAddressLE_value [of 55 payload] assms by auto
  obtain c where c: "extractAddressLE payload 96 = Inr c"
    using extractAddressLE_value [of 96 payload] assms by auto
  show ?thesis using assms s c by (simp add: verify_extract_def)
qed

lemma parsePayload_ok:
  assumes "75 \<le> length payload"
  shows "\<exists>p. parsePayload payload = Inr p"
proof -
  obtain a5 where a5: "extractAndReverseAddress payload 32 = Inr a5"
    using extractAndReverseAddress_ok [of 32 payload] assms by auto
  obtain cid where cid: "extractAndReverseUint16 payload 52 = Inr cid"
    using extractAndReverseUint16_ok [of 52 payload] assms by auto
  obtain a7 where a7: "extractAndReverseAddress payload 55 = Inr a7"
    using extractAndReverseAddress_ok [of 55 payload] assms by auto
  show ?thesis using assms a5 cid a7 by (simp add: parsePayload_def)
qed

text \<open>
  C9. Both fixed-offset decoders first compare the payload length with the end of the
  last field they read (75 bytes for \<open>parsePayload\<close>, 116 bytes for the verify path).
  A shorter payload is rejected with the "too short" error and no value; any other
  payload decodes in full. No call returns a partly filled struct.
\<close>

theorem decode_all_or_nothing:
  "(length payload < 75 \<longrightarrow> parsePayload payload = Inl (Revert ''Payload too short''))
   \<and> (75 \<le> length payload \<longrightarrow> (\<exists>p. parsePayload payload = Inr p))
   \<and> (length payload < 116 \<longrightarrow> verify_extract payload = Inl (Revert ''payload too short''))
   \<and> (116 \<le> length payload \<longrightarrow> (\<exists>r. verify_extract payload = Inr r))"
proof -
  have "116 \<le> length payload \<Longrightarrow> \<exists>r. verify_extract payload = Inr r"
    using verify_extract_ok [of payload] by blast
  then show ?thesis
    using parsePayload_ok [of payload] by (auto simp: parsePayload_def verify_extract_def)
qed

theorem decode_all_or_nothing_witness:
  "length (replicate 10 (0::byte)) < 75
   \<and> parsePayload (replicate 10 0) = Inl (Revert ''Payload too short'')
   \<and> length (replicate 10 (0::byte)) < 116
   \<and> verify_extract (replicate 10 0) = Inl (Revert ''payload too short'')
   \<and> 75 \<le> length (replicate 116 (0::byte))
   \<and> (\<exists>p. parsePayload (replicate 116 0) = Inr p)
   \<and> 116 \<le> length (replicate 116 (0::byte))
   \<and> (\<exists>r. verify_extract (replicate 116 0) = Inr r)"
  using decode_all_or_nothing [of "replicate 10 0"] decode_all_or_nothing [of "replicate 116 0"]
  by simp

section \<open>The guards of the validators\<close>

lemma owners_loop_eq:
  "length es = length cs \<Longrightarrow>
   owners_loop es cs = (if cs = es then Inr () else Inl OwnersMismatch)"
  by (induction es cs rule: owners_loop.induct) auto

lemma requireSameArray_loop_eq:
  "length xs = length ys \<Longrightarrow>
   requireSameArray_loop xs ys = (if ys = xs then Inr () else Inl (Revert ''owners diff''))"
  by (induction xs ys rule: requireSameArray_loop.induct) auto

lemma validate_as_guards:
  "validate env sender v callData vaa
     = guard_result (first_failure (validate_guards env sender v callData vaa))"
  by (auto simp: validate_def validate_guards_def guard_result_def validateCallData_def
        owners_loop_eq split: prod.splits option.splits)

lemma g_validate_as_guards:
  "g_validate env sender g callData vaa
     = guard_result (first_failure (g_validate_guards env sender g callData vaa))"
  by (auto simp: g_validate_def g_validate_guards_def guard_result_def g_validateCallData_def
        requireSameArray_def requireSameArray_loop_eq split: prod.splits option.splits)

text \<open>
  C3 (as the contracts order the guards). \<open>validate\<close> returns the error of the first
  guard that fails, in this order: not paused; calling module authorized; attestation
  valid; payload decodes; version; chain id; expiry; nonce not consumed; selector; call
  arguments equal to the intent's account, threshold, nonce and owners. The guardian
  validator has the same order, with the adapter guards in the place of the
  authorization guard.
\<close>

theorem validate_guard_order:
  "validate env sender v callData vaa
     = guard_result (first_failure (validate_guards env sender v callData vaa))
   \<and> g_validate env sender g callData vaa
     = guard_result (first_failure (g_validate_guards env sender g callData vaa))"
  using validate_as_guards g_validate_as_guards by blast

text \<open>
  The order of the specification puts the calling module after the nonce. For a caller
  that is not authorized and an intent for another chain the contract answers
  \<open>NotAuthorizedModule\<close>, where that order answers \<open>WrongChain\<close>.
\<close>

theorem validate_guard_order_counterexample:
  "validate (scenario_env\<lparr>block_chainid := 1\<rparr>) 0x999 scenario_validator scenario_callData []
     = Inl NotAuthorizedModule
   \<and> guard_result (first_failure
        (specified_guards (scenario_env\<lparr>block_chainid := 1\<rparr>) 0x999 scenario_validator
           scenario_callData []))
     = Inl WrongChain"
  by (simp add: validate_def specified_guards_def guard_result_def scenario_env_def
        scenario_validator_def scenario_payload_def scenario_callData_def)

section \<open>Consumed nonces\<close>

lemma validator_call_consumed:
  "consumed v n \<Longrightarrow> validator_call sender op v = Inr v' \<Longrightarrow> consumed v' n"
  by (cases op)
     (auto simp: setOwner_def setPaused_def setModuleAuthorized_def onInstall_def
        onUninstall_def markConsumed_def Let_def split: if_splits sum.splits)

lemma validator_tx_consumed: "consumed v n \<Longrightarrow> consumed (validator_tx tx v) n"
  by (auto simp: validator_tx_def split: sum.splits dest: validator_call_consumed)

lemma validator_run_consumed: "consumed v n \<Longrightarrow> consumed (validator_run txs v) n"
  unfolding validator_run_def
  by (induction txs arbitrary: v) (auto intro: validator_tx_consumed)

lemma validate_consumed_rejected:
  assumes "consumed v (p_nonce p)"
    and "abi_decode_payload env (fst (parseAndVerifyVM env vaa)) = Some p"
  shows "validate env sender v callData vaa \<noteq> Inr magic"
  using assms by (auto simp: validate_def split: prod.splits option.splits sum.splits)

lemma validate_consumed_error:
  assumes "consumed v (p_nonce p)"
    and "abi_decode_payload env (fst (parseAndVerifyVM env vaa)) = Some p"
    and "\<not> v_paused v" "authorizedModules v sender" "snd (parseAndVerifyVM env vaa)"
    and "p_version p = 1" "p_chainId p = block_chainid env" "block_timestamp env \<le> p_expiry p"
  shows "validate env sender v callData vaa = Inl NonceAlreadyConsumed"
  using assms by (auto simp: validate_def split: prod.splits)

text \<open>
  C2 (with the guards that come first). Once a nonce is consumed, no sequence of calls
  of the validator resets it, and no later \<open>validate\<close> of an intent with that nonce
  returns the magic value, whatever the owners, the threshold and the call data; the
  error is \<open>NonceAlreadyConsumed\<close> whenever the guards before the nonce guard hold.
\<close>

theorem consumed_nonce_stays_rejected:
  assumes "consumed v n"
    and "v' = validator_run txs v"
    and "abi_decode_payload env (fst (parseAndVerifyVM env vaa)) = Some p"
    and "p_nonce p = n"
  shows "consumed v' n
       \<and> (\<forall>magic. validate env sender v' callData vaa \<noteq> Inr magic)
       \<and> (\<not> v_paused v' \<and> authorizedModules v' sender \<and> snd (parseAndVerifyVM env vaa)
            \<and> p_version p = 1 \<and> p_chainId p = block_chainid env
            \<and> block_timestamp env \<le> p_expiry p
          \<longrightarrow> validate env sender v' callData vaa = Inl NonceAlreadyConsumed)"
proof -
  have c: "consumed v' (p_nonce p)"
    using assms(1,2,4) validator_run_consumed by simp
  show ?thesis
    using c assms(3,4) validate_consumed_rejected [OF c assms(3)]
      validate_consumed_error [OF c assms(3)]
    by blast
qed

theorem consumed_nonce_stays_rejected_witness:
  "consumed (scenario_validator\<lparr>consumed := (\<lambda>n. n = 7)\<rparr>) 7
   \<and> abi_decode_payload scenario_env (fst (parseAndVerifyVM scenario_env [])) = Some scenario_payload
   \<and> p_nonce scenario_payload = 7
   \<and> consumed (validator_run [(0x1, SetPaused True), (0x1, SetPaused False), (0x100, MarkConsumed 8)]
        (scenario_validator\<lparr>consumed := (\<lambda>n. n = 7)\<rparr>)) 7
   \<and> validate scenario_env 0x100
        (validator_run [(0x1, SetPaused True), (0x1, SetPaused False), (0x100, MarkConsumed 8)]
           (scenario_validator\<lparr>consumed := (\<lambda>n. n = 7)\<rparr>))
        (scenario_callData\<lparr>cd_args := Some \<lparr>a_safe = 0x5AFE, a_owners = [0xE], a_threshold = 1,
                                             a_nonce = 7, a_vaa = []\<rparr>\<rparr>) []
      = Inl NonceAlreadyConsumed"
proof -
  let ?v = "scenario_validator\<lparr>consumed := (\<lambda>n. n = 7)\<rparr>"
  let ?txs = "[(0x1, SetPaused True), (0x1, SetPaused False), (0x100, MarkConsumed 8)]"
  have h1: "consumed ?v 7" by simp
  have h3: "abi_decode_payload scenario_env (fst (parseAndVerifyVM scenario_env [])) = Some scenario_payload"
    by (simp add: scenario_env_def)
  have h4: "p_nonce scenario_payload = 7" by (simp add: scenario_payload_def)
  have run: "validator_run ?txs ?v
      = scenario_validator\<lparr>consumed := (\<lambda>n. n = 7 \<or> n = 8)\<rparr>"
    by (auto simp: validator_run_def validator_tx_def setPaused_def markConsumed_def
          scenario_validator_def fun_eq_iff)
  have g: "\<not> v_paused (validator_run ?txs ?v) \<and> authorizedModules (validator_run ?txs ?v) 0x100
      \<and> snd (parseAndVerifyVM scenario_env [])
      \<and> p_version scenario_payload = 1 \<and> p_chainId scenario_payload = block_chainid scenario_env
      \<and> block_timestamp scenario_env \<le> p_expiry scenario_payload"
    unfolding run by (simp add: scenario_validator_def scenario_env_def scenario_payload_def)
  from consumed_nonce_stays_rejected [OF h1 refl h3 h4, where sender = "0x100"] g h1 h3 h4
  show ?thesis by blast
qed

text \<open>
  With the nonce consumed and the intent expired, the error is \<open>Expired\<close>, not
  \<open>NonceAlreadyConsumed\<close>.
\<close>

theorem consumed_nonce_counterexample:
  "consumed (scenario_validator\<lparr>consumed := (\<lambda>n. n = 7)\<rparr>) (p_nonce scenario_payload)
   \<and> validate (scenario_env\<lparr>block_timestamp := 3000\<rparr>) 0x100
        (scenario_validator\<lparr>consumed := (\<lambda>n. n = 7)\<rparr>) scenario_callData []
      = Inl Expired
   \<and> validate (scenario_env\<lparr>block_timestamp := 3000\<rparr>) 0x100
        (scenario_validator\<lparr>consumed := (\<lambda>n. n = 7)\<rparr>) scenario_callData []
      \<noteq> Inl NonceAlreadyConsumed"
  by (simp add: validate_def scenario_env_def scenario_validator_def scenario_payload_def
        scenario_callData_def)

section \<open>The reconciliation sequence\<close>

lemma steps_ok_Nil [simp]: "steps_ok w []"
  by (simp add: steps_ok_def)

lemma steps_ok_append:
  "steps_ok w tr \<Longrightarrow> steps_ok w' tr' \<Longrightarrow> w_validator w' = w_validator w
   \<Longrightarrow> steps_ok w (tr @ tr')"
  by (auto simp: steps_ok_def)

lemma moduleCall_Inr:
  assumes "moduleCall S this safe c w = (tr, Inr w')"
  shows "steps_ok w tr \<and> w_validator w' = w_validator w \<and> tr \<noteq> []"
  using assms
  by (auto simp: moduleCall_def steps_ok_def split: option.splits sum.splits prod.splits if_splits)

lemma add_loop_Inr:
  "add_loop S this safe current os keep w = (tr, Inr (keep', w'))
   \<Longrightarrow> steps_ok w tr \<and> w_validator w' = w_validator w"
proof (induction S this safe current os keep w arbitrary: tr rule: add_loop.induct)
  case (1 S this safe current keep w)
  then show ?case by simp
next
  case (2 S this safe current ow os keep w)
  show ?case
  proof (cases "first_index current ow")
    case (Some j)
    with 2 show ?thesis by simp
  next
    case None
    from "2.prems" None obtain s where s: "w_safes w safe = Some s"
      by (auto split: option.splits)
    let ?c = "AddOwnerWithThreshold ow (i_getThreshold S s)"
    obtain tr1 r1 where m: "moduleCall S this safe ?c w = (tr1, r1)" by (cases "moduleCall S this safe ?c w")
    from "2.prems" None s m obtain w1 where r1: "r1 = Inr w1"
      by (cases r1) auto
    obtain tr2 r2 where a: "add_loop S this safe current os keep w1 = (tr2, r2)"
      by (cases "add_loop S this safe current os keep w1")
    from "2.prems" None s m r1 a have tr: "tr = tr1 @ tr2" and r2: "r2 = Inr (keep', w')"
      by auto
    from moduleCall_Inr [OF m [unfolded r1]]
    have k1: "steps_ok w tr1" and v1: "w_validator w1 = w_validator w" by auto
    from "2.IH"(1) [OF None s m [symmetric] r1 a [unfolded r2]]
    have k2: "steps_ok w1 tr2" and v2: "w_validator w' = w_validator w1" by auto
    show ?thesis using k1 k2 v1 v2 tr by (auto intro: steps_ok_append)
  qed
qed

lemma remove_loop_Inr:
  "remove_loop S this safe current keep j n w = (tr, Inr w')
   \<Longrightarrow> steps_ok w tr \<and> w_validator w' = w_validator w"
proof (induction S this safe current keep j n w arbitrary: tr rule: remove_loop.induct)
  case (1 S this safe current keep j w)
  then show ?case by simp
next
  case (2 S this safe current keep j n w)
  show ?case
  proof (cases "keep ! j")
    case True
    with 2 show ?thesis by simp
  next
    case False
    define prev where "prev = (if j = 0 then SENTINEL else current ! (j - 1))"
    from "2.prems" False obtain s where s: "w_safes w safe = Some s"
      by (auto simp: Let_def split: option.splits)
    let ?c = "RemoveOwner prev (current ! j) (i_getThreshold S s)"
    obtain tr1 r1 where m: "moduleCall S this safe ?c w = (tr1, r1)" by (cases "moduleCall S this safe ?c w")
    from "2.prems" False s m obtain w1 where r1: "r1 = Inr w1"
      by (cases r1) (auto simp: prev_def Let_def)
    obtain tr2 r2 where a: "remove_loop S this safe current keep (j + 1) n w1 = (tr2, r2)"
      by (cases "remove_loop S this safe current keep (j + 1) n w1")
    from "2.prems" False s m r1 a have tr: "tr = tr1 @ tr2" and r2: "r2 = Inr w'"
      by (auto simp: prev_def Let_def)
    from moduleCall_Inr [OF m [unfolded r1]]
    have k1: "steps_ok w tr1" and v1: "w_validator w1 = w_validator w" by auto
    from "2.IH"(1) [OF False prev_def s m [symmetric] r1 a [unfolded r2]]
    have k2: "steps_ok w1 tr2" and v2: "w_validator w' = w_validator w1" by auto
    show ?thesis using k1 k2 v1 v2 tr by (auto intro: steps_ok_append)
  qed
qed


lemma consumeNonce_Inr:
  assumes "consumeNonce this nonce w = (tr, Inr w')"
  shows "tr = [\<lparr>st_call = ConsumeNonce nonce, st_ok = True, st_before = w\<rparr>]
       \<and> consumed (w_validator w') nonce \<and> w_safes w' = w_safes w"
  using assms
  by (auto simp: consumeNonce_def markConsumed_def split: sum.splits if_splits)

lemma validate_Inr_nonce:
  assumes "validate env sender v \<lparr>cd_selector = sel, cd_args = Some a\<rparr> vaa = Inr magic"
  shows "\<not> consumed v (a_nonce a)"
  using assms
  by (auto simp: validate_def validateCallData_def
        split: prod.splits option.splits sum.splits if_splits)

text \<open>The shape of every successful run of \<open>applyRecovery\<close>.\<close>

lemma applyRecovery_Inr:
  assumes "applyRecovery S env this w targetSafe newOwners newThreshold nonce vaa = (tr, Inr w')"
  shows "\<exists>muts w3. tr = muts @ [\<lparr>st_call = ConsumeNonce nonce, st_ok = True, st_before = w3\<rparr>]
           \<and> muts \<noteq> [] \<and> steps_ok w muts
           \<and> w_validator w3 = w_validator w
           \<and> \<not> consumed (w_validator w) nonce
           \<and> consumed (w_validator w') nonce"
proof -
  let ?cd = "\<lparr>cd_selector = applyRecovery_selector env,
              cd_args = Some \<lparr>a_safe = targetSafe, a_owners = newOwners,
                              a_threshold = newThreshold, a_nonce = nonce, a_vaa = vaa\<rparr>\<rparr>"
  from assms obtain magic where v: "validate env this (w_validator w) ?cd vaa = Inr magic"
    by (auto simp: applyRecovery_def Let_def split: if_splits sum.splits)
  from assms v obtain s0 where s0: "w_safes w targetSafe = Some s0"
    by (auto simp: applyRecovery_def Let_def split: if_splits option.splits)
  let ?current = "i_getOwners S s0"
  let ?keep = "replicate (length ?current) False"
  obtain tr1 r1 where a: "add_loop S this targetSafe ?current newOwners ?keep w = (tr1, r1)"
    by (cases "add_loop S this targetSafe ?current newOwners ?keep w")
  from assms v s0 a obtain keep' w1 where r1: "r1 = Inr (keep', w1)"
    by (cases r1) (auto simp: applyRecovery_def Let_def split: if_splits)
  obtain tr2 r2 where r: "remove_loop S this targetSafe ?current keep' 0 (length ?current) w1 = (tr2, r2)"
    by (cases "remove_loop S this targetSafe ?current keep' 0 (length ?current) w1")
  from assms v s0 a r1 r obtain w2 where r2: "r2 = Inr w2"
    by (cases r2) (auto simp: applyRecovery_def Let_def split: if_splits)
  obtain tr3 r3 where c: "moduleCall S this targetSafe (ChangeThreshold newThreshold) w2 = (tr3, r3)"
    by (cases "moduleCall S this targetSafe (ChangeThreshold newThreshold) w2")
  from assms v s0 a r1 r r2 c obtain w3 where r3: "r3 = Inr w3"
    by (cases r3) (auto simp: applyRecovery_def Let_def split: if_splits)
  obtain tr4 r4 where n: "consumeNonce this nonce w3 = (tr4, r4)"
    by (cases "consumeNonce this nonce w3")
  from assms v s0 a r1 r r2 c r3 n have tr: "tr = tr1 @ tr2 @ tr3 @ tr4" and r4: "r4 = Inr w'"
    by (auto simp: applyRecovery_def Let_def split: if_splits)
  from add_loop_Inr [OF a [unfolded r1]]
  have k1: "steps_ok w tr1" and v1: "w_validator w1 = w_validator w" by auto
  from remove_loop_Inr [OF r [unfolded r2]]
  have k2: "steps_ok w1 tr2" and v2: "w_validator w2 = w_validator w1" by auto
  from moduleCall_Inr [OF c [unfolded r3]]
  have k3: "steps_ok w2 tr3" and v3: "w_validator w3 = w_validator w2" and ne: "tr3 \<noteq> []" by auto
  from consumeNonce_Inr [OF n [unfolded r4]]
  have t4: "tr4 = [\<lparr>st_call = ConsumeNonce nonce, st_ok = True, st_before = w3\<rparr>]"
    and cons: "consumed (w_validator w') nonce" by auto
  have k: "steps_ok w (tr1 @ tr2 @ tr3)"
    using k1 k2 k3 v1 v2 by (auto simp: steps_ok_def)
  have "\<not> consumed (w_validator w) nonce"
    using validate_Inr_nonce [OF v] by simp
  then show ?thesis
    using tr t4 ne k v1 v2 v3 cons
    by (intro exI [of _ "tr1 @ tr2 @ tr3"] exI [of _ w3]) simp
qed

lemmas scenario_defs =
  scenario_env_def scenario_world_def scenario_safe_def scenario_validator_def
  scenario_payload_def scenario_callData_def

lemmas applyRecovery_eval =
  applyRecovery_def validate_def validateCallData_def MAGICVALUE_def
  MockSafe_impl_def getOwners_def getThreshold_def moduleCall_def execTransactionFromModule_def
  addOwnerWithThreshold_def removeOwner_def changeThreshold_def consumeNonce_def markConsumed_def
  SENTINEL_def numeral_3_eq_3

text \<open>
  C5. When any sub-call of the sequence fails (an owner addition, an owner removal, the
  threshold change or the consumption of the nonce), \<open>applyRecovery\<close> reverts, and
  the storage after the transaction is the storage before it: owners, threshold and
  consumed nonces are untouched. This holds for every implementation of \<open>ISafe\<close>.
\<close>

theorem applyRecovery_all_or_nothing:
  assumes "applyRecovery S env this w targetSafe newOwners newThreshold nonce vaa = (tr, r)"
    and "\<exists>st \<in> set tr. \<not> st_ok st"
  shows "\<exists>e. r = Inl e \<and> transact w (tr, r) = (w, Some e)"
proof (cases r)
  case (Inl e)
  then show ?thesis by (simp add: transact_def)
next
  case (Inr w')
  from applyRecovery_Inr [OF assms(1) [unfolded Inr]]
  obtain muts w3 where "tr = muts @ [\<lparr>st_call = ConsumeNonce nonce, st_ok = True, st_before = w3\<rparr>]"
    and "steps_ok w muts" by blast
  then have "\<forall>st \<in> set tr. st_ok st" by (auto simp: steps_ok_def)
  with assms(2) show ?thesis by blast
qed

text \<open>
  With threshold 3 the second removal fails (3 owners would have to sign among 2): the
  call reverts with \<open>SafeCallFailed\<close> and the owner that was already added and the
  owner that was already removed are rolled back.
\<close>

theorem applyRecovery_all_or_nothing_witness:
  "(\<exists>st \<in> set (fst (applyRecovery MockSafe_impl scenario_env 0x100 (scenario_world 3)
                        0x5AFE [0xA, 0xD] 1 7 [])). \<not> st_ok st)
   \<and> snd (applyRecovery MockSafe_impl scenario_env 0x100 (scenario_world 3)
                        0x5AFE [0xA, 0xD] 1 7 []) = Inl SafeCallFailed
   \<and> transact (scenario_world 3)
        (applyRecovery MockSafe_impl scenario_env 0x100 (scenario_world 3) 0x5AFE [0xA, 0xD] 1 7 [])
      = (scenario_world 3, Some SafeCallFailed)"
proof -
  let ?X = "applyRecovery MockSafe_impl scenario_env 0x100 (scenario_world 3) 0x5AFE [0xA, 0xD] 1 7 []"
  have oks: "map st_ok (fst ?X) = [True, True, False]"
    by (simp add: applyRecovery_eval scenario_defs)
  have res: "snd ?X = Inl SafeCallFailed"
    by (simp add: applyRecovery_eval scenario_defs)
  have "False \<in> set (map st_ok (fst ?X))" unfolding oks by simp
  then have h: "\<exists>st \<in> set (fst ?X). \<not> st_ok st" by auto
  from applyRecovery_all_or_nothing [OF prod.collapse [symmetric] h] res h
  show ?thesis by simp
qed

text \<open>
  C4 (as the module sequences it). \<open>validate\<close> is a view and consumes nothing. In
  every successful \<open>applyRecovery\<close> the consumption is the last sub-call; before it
  come the Safe calls (at least the threshold change), each of which succeeded and ran
  against the validator state of the start of the call, in which the nonce is not
  consumed; in the final state the nonce is consumed.
\<close>

theorem nonce_consumed_after_mutations:
  assumes "applyRecovery S env this w targetSafe newOwners newThreshold nonce vaa = (tr, Inr w')"
  shows "\<exists>muts w3.
           tr = muts @ [\<lparr>st_call = ConsumeNonce nonce, st_ok = True, st_before = w3\<rparr>]
         \<and> muts \<noteq> []
         \<and> (\<forall>st \<in> set muts. (\<exists>c. st_call st = ModuleCall c) \<and> st_ok st
               \<and> w_validator (st_before st) = w_validator w
               \<and> \<not> consumed (w_validator (st_before st)) nonce)
         \<and> \<not> consumed (w_validator w3) nonce
         \<and> consumed (w_validator w') nonce"
proof -
  from applyRecovery_Inr [OF assms]
  obtain muts w3 where tr: "tr = muts @ [\<lparr>st_call = ConsumeNonce nonce, st_ok = True, st_before = w3\<rparr>]"
    and ne: "muts \<noteq> []" and k: "steps_ok w muts" and v3: "w_validator w3 = w_validator w"
    and nc: "\<not> consumed (w_validator w) nonce" and c: "consumed (w_validator w') nonce"
    by blast
  have "\<forall>st \<in> set muts. (\<exists>c. st_call st = ModuleCall c) \<and> st_ok st
          \<and> w_validator (st_before st) = w_validator w
          \<and> \<not> consumed (w_validator (st_before st)) nonce"
    using k nc by (auto simp: steps_ok_def)
  with tr ne v3 nc c show ?thesis by auto
qed

lemma scenario_run_succeeds:
  "\<exists>w'. snd (applyRecovery MockSafe_impl scenario_env 0x100 (scenario_world 2)
                       0x5AFE [0xA, 0xD] 1 7 []) = Inr w'"
  by (simp add: applyRecovery_eval scenario_defs)

theorem nonce_consumed_after_mutations_witness:
  "\<exists>tr w'. applyRecovery MockSafe_impl scenario_env 0x100 (scenario_world 2)
                       0x5AFE [0xA, 0xD] 1 7 [] = (tr, Inr w')
     \<and> (\<exists>muts w3.
           tr = muts @ [\<lparr>st_call = ConsumeNonce 7, st_ok = True, st_before = w3\<rparr>]
         \<and> muts \<noteq> []
         \<and> (\<forall>st \<in> set muts. (\<exists>c. st_call st = ModuleCall c) \<and> st_ok st
               \<and> w_validator (st_before st) = w_validator (scenario_world 2)
               \<and> \<not> consumed (w_validator (st_before st)) 7)
         \<and> \<not> consumed (w_validator w3) 7
         \<and> consumed (w_validator w') 7)"
proof -
  let ?X = "applyRecovery MockSafe_impl scenario_env 0x100 (scenario_world 2) 0x5AFE [0xA, 0xD] 1 7 []"
  from scenario_run_succeeds obtain w' where "snd ?X = Inr w'" by blast
  then have X: "?X = (fst ?X, Inr w')" by (metis prod.collapse)
  from nonce_consumed_after_mutations [OF X] X show ?thesis by blast
qed

text \<open>
  In the scenario the first sub-call is the addition of \<open>0xD\<close>. It succeeds, and in
  the state it runs against the intent passes \<open>validate\<close> and nonce 7 is not
  consumed.
\<close>

theorem mutations_run_unconsumed_counterexample:
  "st_call (hd (fst (applyRecovery MockSafe_impl scenario_env 0x100 (scenario_world 2)
                       0x5AFE [0xA, 0xD] 1 7 [])))
     = ModuleCall (AddOwnerWithThreshold 0xD 2)
   \<and> st_ok (hd (fst (applyRecovery MockSafe_impl scenario_env 0x100 (scenario_world 2)
                       0x5AFE [0xA, 0xD] 1 7 [])))
   \<and> validate scenario_env 0x100
        (w_validator (st_before (hd (fst (applyRecovery MockSafe_impl scenario_env 0x100
           (scenario_world 2) 0x5AFE [0xA, 0xD] 1 7 [])))))
        scenario_callData [] = Inr MAGICVALUE
   \<and> \<not> consumed
        (w_validator (st_before (hd (fst (applyRecovery MockSafe_impl scenario_env 0x100
           (scenario_world 2) 0x5AFE [0xA, 0xD] 1 7 [])))))
        7"
  by (simp add: applyRecovery_eval scenario_defs)

text \<open>
  C1. Safe \<open>[0xA, 0xB, 0xC]\<close> with threshold 2, target \<open>[0xA, 0xD]\<close> with
  threshold 1. The module issues one addition (\<open>0xD\<close>), the removals of \<open>0xB\<close> and
  \<open>0xC\<close>, one threshold change and the consumption, in that order. The predecessor
  sent with the removal of \<open>0xC\<close> is \<open>0xB\<close>, its neighbour in the list read before
  any change; when that call is made the owners are \<open>[0xA, 0xD, 0xC]\<close> and \<open>0xB\<close>
  is no longer one of them.
\<close>

theorem applyRecovery_stale_predecessor:
  "map st_call (fst (applyRecovery MockSafe_impl scenario_env 0x100 (scenario_world 2)
                       0x5AFE [0xA, 0xD] 1 7 []))
     = [ModuleCall (AddOwnerWithThreshold 0xD 2), ModuleCall (RemoveOwner 0xA 0xB 2),
        ModuleCall (RemoveOwner 0xB 0xC 2), ModuleCall (ChangeThreshold 1), ConsumeNonce 7]
   \<and> map (\<lambda>st. map_option owners (w_safes (st_before st) 0x5AFE))
        (fst (applyRecovery MockSafe_impl scenario_env 0x100 (scenario_world 2)
                0x5AFE [0xA, 0xD] 1 7 []))
     = [Some [0xA, 0xB, 0xC], Some [0xA, 0xB, 0xC, 0xD], Some [0xA, 0xD, 0xC],
        Some [0xA, 0xD], Some [0xA, 0xD]]"
  by (simp add: applyRecovery_eval scenario_defs)

section \<open>The dedup gate\<close>































section \<open>Retries of the submitter\<close>

lemma conflict_text: "isNonceConflict ''nonce too low: next nonce 10''"
  by (simp add: isNonceConflict_def)

lemma retry_loop_conflict:
  assumes "nonceAt (rpc k) = Some c" "pendingNonceAt (rpc k) = Some p"
    and "suggestGasPrice (rpc k) = Some g" "signTxOk (rpc k)"
    and "sendTransaction (rpc k) = Some err" "isNonceConflict err"
  shows "retry_loop rpc k (Suc n) =
           (\<lparr>tx_nonce = max c p, tx_gasPrice = (if k > 0 then g + g div 5 else g)\<rparr>
              # fst (retry_loop rpc (k + 1) n),
            snd (retry_loop rpc (k + 1) n))"
  using assms by (simp add: getFreshNonce_def max_def split: prod.splits)

lemma retry_loop_attempt:
  assumes "nonceAt (rpc k) = Some c" "pendingNonceAt (rpc k) = Some p"
    and "suggestGasPrice (rpc k) = Some g" "signTxOk (rpc k)"
  shows "\<exists>rest r. retry_loop rpc k (Suc n) =
           (\<lparr>tx_nonce = max c p, tx_gasPrice = (if k > 0 then g + g div 5 else g)\<rparr> # rest, r)"
  using assms
  by (auto simp: getFreshNonce_def max_def Let_def split: prod.splits option.splits)

lemma bump_strict: "g0 \<le> g1 \<Longrightarrow> 5 \<le> g1 \<Longrightarrow> (g0::int) < g1 + g1 div 5"
  by linarith

lemma bump_mono: "g1 \<le> g2 \<Longrightarrow> (g1::int) + g1 div 5 \<le> g2 + g2 div 5"
  by (simp add: add_mono zdiv_mono1)

text \<open>
  C8 (with the fee as the code computes it). After a nonce conflict on attempt 1,
  attempt 2 is signed with the counter fetched in attempt 2 (the larger of the confirmed
  and the pending one) and bids the gas price suggested in attempt 2 plus a fifth of it.
  That bid is strictly higher than attempt 1's when the suggestion has not fallen and is
  at least 5; a later retry bids no less when the suggestion has not fallen. After three
  conflicts the call returns the error of the exhausted bound.
\<close>

theorem retry_fresh_nonce_and_fee:
  assumes "abiParseOk setup" "abiPackOk setup" "networkID setup = Some cid"
    and "nonceAt (rpc 0) = Some c0" "pendingNonceAt (rpc 0) = Some p0"
    and "suggestGasPrice (rpc 0) = Some g0" "signTxOk (rpc 0)"
    and "sendTransaction (rpc 0) = Some err0" "isNonceConflict err0"
    and "nonceAt (rpc 1) = Some c1" "pendingNonceAt (rpc 1) = Some p1"
    and "suggestGasPrice (rpc 1) = Some g1" "signTxOk (rpc 1)"
  shows "\<exists>tx0 tx1 rest r.
           SendVerifyTransaction setup rpc = (tx0 # tx1 # rest, r)
         \<and> tx_nonce tx0 = max c0 p0 \<and> tx_gasPrice tx0 = g0
         \<and> tx_nonce tx1 = max c1 p1 \<and> tx_gasPrice tx1 = g1 + g1 div 5
         \<and> (g0 \<le> g1 \<and> 5 \<le> g1 \<longrightarrow> tx_gasPrice tx0 < tx_gasPrice tx1)
         \<and> (sendTransaction (rpc 1) = Some err1 \<and> isNonceConflict err1
              \<and> nonceAt (rpc 2) = Some c2 \<and> pendingNonceAt (rpc 2) = Some p2
              \<and> suggestGasPrice (rpc 2) = Some g2 \<and> signTxOk (rpc 2)
              \<and> sendTransaction (rpc 2) = Some err2 \<and> isNonceConflict err2
            \<longrightarrow> (\<exists>tx2. rest = [tx2] \<and> r = Inl (NonceConflicts 3)
                   \<and> tx_nonce tx2 = max c2 p2 \<and> tx_gasPrice tx2 = g2 + g2 div 5
                   \<and> (g1 \<le> g2 \<longrightarrow> tx_gasPrice tx1 \<le> tx_gasPrice tx2)))"
proof -
  let ?tx0 = "\<lparr>tx_nonce = max c0 p0, tx_gasPrice = g0\<rparr>"
  let ?tx1 = "\<lparr>tx_nonce = max c1 p1, tx_gasPrice = g1 + g1 div 5\<rparr>"
  let ?tx2 = "\<lparr>tx_nonce = max c2 p2, tx_gasPrice = g2 + g2 div 5\<rparr>"
  have s: "SendVerifyTransaction setup rpc = retry_loop rpc 0 (Suc (Suc (Suc 0)))"
    using assms(1-3) by (simp add: SendVerifyTransaction_def maxRetries_def numeral_3_eq_3)
  have l0: "retry_loop rpc 0 (Suc (Suc (Suc 0)))
      = (?tx0 # fst (retry_loop rpc 1 (Suc (Suc 0))), snd (retry_loop rpc 1 (Suc (Suc 0))))"
    using retry_loop_conflict [where rpc = rpc and k = 0 and n = "Suc (Suc 0)", OF assms(4-9)]
    by (simp del: retry_loop.simps)
  obtain rest r where l1: "retry_loop rpc 1 (Suc (Suc 0)) = (?tx1 # rest, r)"
    using retry_loop_attempt [where rpc = rpc and k = 1 and n = "Suc 0", OF assms(10-13)]
    by (auto simp del: retry_loop.simps)
  have run: "SendVerifyTransaction setup rpc = (?tx0 # ?tx1 # rest, r)"
    using s l0 l1 by (simp del: retry_loop.simps)
  have fee: "g0 \<le> g1 \<and> 5 \<le> g1 \<longrightarrow> tx_gasPrice ?tx0 < tx_gasPrice ?tx1"
    using bump_strict by simp
  have ex: "rest = [?tx2] \<and> r = Inl (NonceConflicts 3)"
    if h: "sendTransaction (rpc 1) = Some err1" "isNonceConflict err1"
      "nonceAt (rpc 2) = Some c2" "pendingNonceAt (rpc 2) = Some p2"
      "suggestGasPrice (rpc 2) = Some g2" "signTxOk (rpc 2)"
      "sendTransaction (rpc 2) = Some err2" "isNonceConflict err2"
  proof -
    have "retry_loop rpc 1 (Suc (Suc 0))
        = (?tx1 # fst (retry_loop rpc 2 (Suc 0)), snd (retry_loop rpc 2 (Suc 0)))"
      using retry_loop_conflict [where rpc = rpc and k = 1 and n = "Suc 0", OF assms(10-13) h(1,2)]
      by (simp del: retry_loop.simps add: numeral_2_eq_2)
    moreover have "retry_loop rpc 2 (Suc 0) = ([?tx2], Inl (NonceConflicts 3))"
      using retry_loop_conflict [where rpc = rpc and k = 2 and n = 0, OF h(3-8)]
      by (simp add: maxRetries_def numeral_2_eq_2)
    ultimately show ?thesis using l1 by (simp del: retry_loop.simps)
  qed
  have mono: "g1 \<le> g2 \<longrightarrow> tx_gasPrice ?tx1 \<le> tx_gasPrice ?tx2"
    using bump_mono by simp
  show ?thesis
    apply (rule exI [of _ ?tx0], rule exI [of _ ?tx1], rule exI [of _ rest], rule exI [of _ r])
    using run fee ex mono by auto
qed

text \<open>
  The suggested price falls from 100 to 50 between the attempts: attempt 1 bids 100,
  attempt 2 bids 60.
\<close>

theorem retry_fee_counterexample:
  "sendTransaction (scenario_rpc 100 50 50 0) = Some ''nonce too low: next nonce 10''
   \<and> isNonceConflict ''nonce too low: next nonce 10''
   \<and> fst (SendVerifyTransaction scenario_setup (scenario_rpc 100 50 50))
       = [\<lparr>tx_nonce = 9, tx_gasPrice = 100\<rparr>, \<lparr>tx_nonce = 8, tx_gasPrice = 60\<rparr>,
          \<lparr>tx_nonce = 9, tx_gasPrice = 60\<rparr>]
   \<and> tx_gasPrice (fst (SendVerifyTransaction scenario_setup (scenario_rpc 100 50 50)) ! 1)
       < tx_gasPrice (fst (SendVerifyTransaction scenario_setup (scenario_rpc 100 50 50)) ! 0)"
proof -
  have "SendVerifyTransaction scenario_setup (scenario_rpc 100 50 50) =
    ([\<lparr>tx_nonce = 9, tx_gasPrice = 100\<rparr>, \<lparr>tx_nonce = 8, tx_gasPrice = 60\<rparr>,
      \<lparr>tx_nonce = 9, tx_gasPrice = 60\<rparr>], Inl (NonceConflicts 3))"
    by (simp add: SendVerifyTransaction_def scenario_setup_def scenario_rpc_def maxRetries_def
          getFreshNonce_def conflict_text numeral_3_eq_3)
  then show ?thesis by (simp add: scenario_rpc_def conflict_text)
qed

theorem retry_fresh_nonce_and_fee_witness:
  "SendVerifyTransaction scenario_setup (scenario_rpc 100 120 120)
     = ([\<lparr>tx_nonce = 9, tx_gasPrice = 100\<rparr>, \<lparr>tx_nonce = 8, tx_gasPrice = 144\<rparr>,
         \<lparr>tx_nonce = 9, tx_gasPrice = 144\<rparr>], Inl (NonceConflicts 3))"
proof -
  let ?rpc = "scenario_rpc 100 120 120"
  let ?e = "''nonce too low: next nonce 10''"
  have s: "abiParseOk scenario_setup" "abiPackOk scenario_setup"
    "networkID scenario_setup = Some 11155111"
    by (simp_all add: scenario_setup_def)
  have a0: "nonceAt (?rpc 0) = Some 7" "pendingNonceAt (?rpc 0) = Some 9"
    "suggestGasPrice (?rpc 0) = Some 100" "signTxOk (?rpc 0)"
    "sendTransaction (?rpc 0) = Some ?e"
    by (simp_all add: scenario_rpc_def)
  have a1: "nonceAt (?rpc 1) = Some 8" "pendingNonceAt (?rpc 1) = Some 8"
    "suggestGasPrice (?rpc 1) = Some 120" "signTxOk (?rpc 1)"
    by (simp_all add: scenario_rpc_def)
  have a2: "sendTransaction (?rpc 1) = Some ?e \<and> isNonceConflict ?e
      \<and> nonceAt (?rpc 2) = Some 9 \<and> pendingNonceAt (?rpc 2) = Some 7
      \<and> suggestGasPrice (?rpc 2) = Some 120 \<and> signTxOk (?rpc 2)
      \<and> sendTransaction (?rpc 2) = Some ?e \<and> isNonceConflict ?e"
    by (simp add: scenario_rpc_def conflict_text)
  from retry_fresh_nonce_and_fee [OF s a0 conflict_text a1,
      where ?err1.0 = ?e and ?err2.0 = ?e and ?c2.0 = 9 and ?p2.0 = 7 and ?g2.0 = 120] a2
  obtain tx0 tx1 tx2 where
    "SendVerifyTransaction scenario_setup ?rpc = ([tx0, tx1, tx2], Inl (NonceConflicts 3))"
    "tx_nonce tx0 = max 7 9" "tx_gasPrice tx0 = 100"
    "tx_nonce tx1 = max 8 8" "tx_gasPrice tx1 = 120 + 120 div 5"
    "tx_nonce tx2 = max 9 7" "tx_gasPrice tx2 = 120 + 120 div 5"
    by blast
  then show ?thesis by (cases tx0; cases tx1; cases tx2) simp
qed

end
